theory Spec2Isabelle
  imports Complex_Main "HOL-Library.Multiset"
begin

section \<open>Data model of \<^verbatim>\<open>spowtd/load.py\<close>\<close>

text \<open>
  Every failure of \<^verbatim>\<open>load.py\<close> is a Python exception. The model returns it as a
  value. The spec's \<^verbatim>\<open>NonuniformTimeStep\<close> is the \<^verbatim>\<open>ValueError\<close> raised by
  \<^verbatim>\<open>populate_grid_time\<close> (it carries \<^verbatim>\<open>delta_t\<close>, which the message prints); the
  spec's \<^verbatim>\<open>InvalidTimestamp\<close> is either the \<^verbatim>\<open>ValueError\<close> of \<^verbatim>\<open>strptime\<close> or the
  \<^verbatim>\<open>ValueError\<close> for non-integer seconds (both carry the offending text).
\<close>

datatype error =
    ValueError_nonuniform_time_steps "int list"
  | ValueError_strptime string
  | ValueError_non_integer_seconds string
  | ValueError_unpack
  | IndexError
  | AssertionError
  | OverflowError

text \<open>
  Modelled from the spec: \<^verbatim>\<open>schema.sql\<close>, which declares the tables, is not among
  the sources. Following the spec's data model, a staging table is the collection of
  its rows in order of arrival, with no uniqueness constraint on \<^verbatim>\<open>epoch\<close>; the
  derived tables are kept the same way. \<^verbatim>\<open>INSERT\<close> appends; a \<^verbatim>\<open>SELECT\<close> without
  \<^verbatim>\<open>ORDER BY\<close> reads the rows in stored order. Epochs are integers, measured values
  are reals (the code holds them as doubles).
\<close>

record db =
  rainfall_intensity_staging :: "(int \<times> real) list"
  evapotranspiration_staging :: "(int \<times> real) list"
  water_level_staging :: "(int \<times> real) list"
  time_grid_table :: "int list"
  grid_time :: "int list"
  rainfall_intensity :: "(int \<times> int \<times> real) list"
  water_level :: "(int \<times> real) list"

text \<open>The store right after \<^verbatim>\<open>load_data\<close> has run the schema script: all tables empty.\<close>

definition empty_db :: db where
  "empty_db = \<lparr>rainfall_intensity_staging = [], evapotranspiration_staging = [],
     water_level_staging = [], time_grid_table = [], grid_time = [],
     rainfall_intensity = [], water_level = []\<rparr>"

text \<open>The three \<^verbatim>\<open>executemany\<close> inserts of \<^verbatim>\<open>load_data\<close> into the staging tables.\<close>

definition insert_rainfall_intensity_staging :: "(int \<times> real) list \<Rightarrow> db \<Rightarrow> db" where
  "insert_rainfall_intensity_staging rows d =
     d\<lparr>rainfall_intensity_staging := rainfall_intensity_staging d @ rows\<rparr>"

definition insert_water_level_staging :: "(int \<times> real) list \<Rightarrow> db \<Rightarrow> db" where
  "insert_water_level_staging rows d =
     d\<lparr>water_level_staging := water_level_staging d @ rows\<rparr>"

definition staged :: "(int \<times> real) list \<Rightarrow> (int \<times> real) list \<Rightarrow> db" where
  "staged rain water =
     insert_water_level_staging water (insert_rainfall_intensity_staging rain empty_db)"

section \<open>Python and SQL primitives used by the pipeline\<close>

text \<open>\<^verbatim>\<open>xs[-k]\<close> for \<open>k \<ge> 1\<close>: Python raises \<^verbatim>\<open>IndexError\<close> when the list is too short.\<close>

definition index_from_end :: "'a list \<Rightarrow> nat \<Rightarrow> error + 'a" where
  "index_from_end xs k =
     (if 1 \<le> k \<and> k \<le> length xs then Inr (xs ! (length xs - k)) else Inl IndexError)"

text \<open>SQL \<^verbatim>\<open>min(epoch)\<close> and \<^verbatim>\<open>max(epoch)\<close>: \<^verbatim>\<open>NULL\<close> (here \<open>None\<close>) over an empty table.\<close>

definition sql_min :: "int list \<Rightarrow> int option" where
  "sql_min xs = (case xs of [] \<Rightarrow> None | x # ys \<Rightarrow> Some (fold min ys x))"

definition sql_max :: "int list \<Rightarrow> int option" where
  "sql_max xs = (case xs of [] \<Rightarrow> None | x # ys \<Rightarrow> Some (fold max ys x))"

text \<open>\<^verbatim>\<open>np.diff\<close> of a one-dimensional array: the consecutive differences.\<close>

fun np_diff :: "int list \<Rightarrow> int list" where
  "np_diff (x # y # xs) = (y - x) # np_diff (y # xs)"
| "np_diff _ = []"

section \<open>Grid Builder: \<^verbatim>\<open>populate_grid_time\<close>\<close>

text \<open>
  The query of \<^verbatim>\<open>populate_grid_time\<close>: the rainfall-staging epochs between the least
  and the greatest water-level epoch, \<^verbatim>\<open>ORDER BY epoch\<close>. A comparison with \<^verbatim>\<open>NULL\<close>
  is not true, so an empty water-level table selects nothing.
\<close>

definition select_time_grid :: "db \<Rightarrow> int list" where
  "select_time_grid d =
     (case (sql_min (map fst (water_level_staging d)),
            sql_max (map fst (water_level_staging d))) of
        (Some min_t_zeta, Some max_t_zeta) \<Rightarrow>
          sort (filter (\<lambda>epoch. epoch \<ge> min_t_zeta \<and> epoch \<le> max_t_zeta)
                  (map fst (rainfall_intensity_staging d)))
      | _ \<Rightarrow> [])"

text \<open>
  \<^verbatim>\<open>populate_grid_time\<close> returns the store together with either the exception or the
  pair \<^verbatim>\<open>(time_grid, time_step)\<close>. \<^verbatim>\<open>sorted(set(np.diff(time_grid)))\<close> is the sorted list
  of the distinct differences. The exception is raised before any \<^verbatim>\<open>INSERT\<close>.
\<close>

definition populate_grid_time :: "db \<Rightarrow> db \<times> (error + int list \<times> int)" where
  "populate_grid_time d =
     (let time_grid = select_time_grid d;
          delta_t = sort (remdups (np_diff time_grid))
      in if length delta_t \<noteq> 1 then (d, Inl (ValueError_nonuniform_time_steps delta_t))
         else
           let time_step = hd delta_t;
               d1 = d\<lparr>time_grid_table := time_grid_table d @ [time_step]\<rparr>
           in case index_from_end time_grid 1 of
                Inl e \<Rightarrow> (d1, Inl e)
              | Inr final \<Rightarrow>
                  let time_grid' = time_grid @ [final + time_step];
                      d2 = d1\<lparr>grid_time := grid_time d1 @ time_grid'\<rparr>
                  in (d2, Inr (time_grid', time_step)))"

text \<open>
  The arithmetic of \<open>np_diff\<close> and \<open>populate_grid_time\<close> above is exact. On the machine,
  the epochs read from the store are 64-bit integers, \<^verbatim>\<open>np.diff\<close> subtracts in 64 bits
  and wraps around, \<^verbatim>\<open>time_grid[-1] + time_step\<close> is a Python integer and exact, and the
  \<^verbatim>\<open>INSERT\<close> of a grid epoch that does not fit in 64 bits raises \<^verbatim>\<open>OverflowError\<close>.
  \<^verbatim>\<open>executemany\<close> inserts row by row, so the candidate epochs are stored before the
  closing point is turned down. \<open>populate_grid_time_int64\<close> is the function with these
  limits written out. The two agree on every store whose selected epochs lie between
  \<open>- 2\<^sup>6\<^sup>1\<close> and \<open>2\<^sup>6\<^sup>1\<close> (\<open>populate_grid_time_int64_eq\<close> below), as do all epochs of the
  Timestamp Normalizer, which lie in the years 1 to 9999.
\<close>

definition int64 :: "int \<Rightarrow> int" where
  "int64 z = (z + 2 ^ 63) mod 2 ^ 64 - 2 ^ 63"

definition fits_int64 :: "int \<Rightarrow> bool" where
  "fits_int64 z = (- (2 ^ 63) \<le> z \<and> z \<le> 2 ^ 63 - 1)"

fun np_diff_int64 :: "int list \<Rightarrow> int list" where
  "np_diff_int64 (x # y # xs) = int64 (y - x) # np_diff_int64 (y # xs)"
| "np_diff_int64 _ = []"

definition populate_grid_time_int64 :: "db \<Rightarrow> db \<times> (error + int list \<times> int)" where
  "populate_grid_time_int64 d =
     (let time_grid = select_time_grid d;
          delta_t = sort (remdups (np_diff_int64 time_grid))
      in if length delta_t \<noteq> 1 then (d, Inl (ValueError_nonuniform_time_steps delta_t))
         else
           let time_step = hd delta_t;
               d1 = d\<lparr>time_grid_table := time_grid_table d @ [time_step]\<rparr>
           in case index_from_end time_grid 1 of
                Inl e \<Rightarrow> (d1, Inl e)
              | Inr final \<Rightarrow>
                  let time_grid' = time_grid @ [final + time_step]
                  in if fits_int64 (final + time_step)
                     then (d1\<lparr>grid_time := grid_time d1 @ time_grid'\<rparr>,
                           Inr (time_grid', time_step))
                     else (d1\<lparr>grid_time := grid_time d1 @ time_grid\<rparr>, Inl OverflowError))"

section \<open>Resampler: \<^verbatim>\<open>populate_rainfall_intensity\<close>\<close>

text \<open>
  The \<^verbatim>\<open>SELECT\<close> inside the statement of \<^verbatim>\<open>populate_rainfall_intensity\<close>: every
  pair of a rainfall-staging row and a \<^verbatim>\<open>grid_time\<close> row with the same epoch
  (\<^verbatim>\<open>JOIN ... USING (epoch)\<close>), kept when the epoch is at most the bound, gives the row
  \<^verbatim>\<open>(epoch, epoch + time_step, rainfall_intensity_mm_h)\<close>.
\<close>

definition select_rainfall_intervals :: "db \<Rightarrow> int \<Rightarrow> int \<Rightarrow> (int \<times> int \<times> real) list" where
  "select_rainfall_intervals d time_step bound =
     concat (map (\<lambda>(epoch, mm_h).
                    map (\<lambda>gt. (epoch, epoch + time_step, mm_h))
                      (filter (\<lambda>gt. gt = epoch \<and> epoch \<le> bound) (grid_time d)))
               (rainfall_intensity_staging d))"

text \<open>
  \<^verbatim>\<open>populate_rainfall_intensity\<close> inserts the selected rows. Its arguments
  \<^verbatim>\<open>(time_step, time_grid[-2])\<close> are evaluated before the statement runs.
\<close>

definition populate_rainfall_intensity :: "db \<Rightarrow> int list \<Rightarrow> int \<Rightarrow> db \<times> (error + unit)" where
  "populate_rainfall_intensity d time_grid time_step =
     (case index_from_end time_grid 2 of
        Inl e \<Rightarrow> (d, Inl e)
      | Inr bound \<Rightarrow>
          (d\<lparr>rainfall_intensity := rainfall_intensity d @
               select_rainfall_intervals d time_step bound\<rparr>,
           Inr ()))"

section \<open>Resampler: \<^verbatim>\<open>populate_water_level\<close>\<close>

text \<open>
  \<^verbatim>\<open>np.interp\<close> is numpy's, not this repository's. The model follows numpy's routine
  \<^verbatim>\<open>arr_interp\<close> over the reals instead of doubles (so without its NaN fallbacks), with
  indices as integers. Its index search \<^verbatim>\<open>binary_search_with_guess\<close> first tests the key
  against the last and then against the first sample point; up to four sample points it
  then scans linearly; beyond, it tries the neighbourhood of the index found for the
  previous point (the guess) and bisects, within eight places of the guess when the key
  is there (\<^verbatim>\<open>LIKELY_IN_CACHE_SIZE\<close> is 8). Left and right fill values are the first and
  the last of \<^verbatim>\<open>fp\<close>. The routine is only called with a non-empty \<^verbatim>\<open>xp\<close>.
\<close>

function bisect :: "real \<Rightarrow> real list \<Rightarrow> int \<Rightarrow> int \<Rightarrow> int" where
  "bisect key arr imin imax =
     (if imin < imax
      then if key \<ge> arr ! nat (imin + (imax - imin) div 2)
           then bisect key arr (imin + (imax - imin) div 2 + 1) imax
           else bisect key arr imin (imin + (imax - imin) div 2)
      else imin - 1)"
  by pat_completeness auto
termination
  by (relation "measure (\<lambda>(key, arr, imin, imax). nat (imax - imin))") auto

declare bisect.simps [simp del]

text \<open>The linear scan \<^verbatim>\<open>for (i = 1; i < len && key >= arr[i]; ++i); return i - 1\<close>.\<close>

definition linear_search :: "real \<Rightarrow> real list \<Rightarrow> int" where
  "linear_search key arr = int (length (takeWhile (\<lambda>a. key \<ge> a) (tl arr)))"

definition binary_search_with_guess :: "real \<Rightarrow> real list \<Rightarrow> int \<Rightarrow> int" where
  "binary_search_with_guess key arr guess0 =
     (let len = int (length arr)
      in if key > arr ! nat (len - 1) then len
         else if key < arr ! 0 then - 1
         else if len \<le> 4 then linear_search key arr
         else
           let guess1 = (if guess0 > len - 3 then len - 3 else guess0);
               guess = (if guess1 < 1 then 1 else guess1)
           in if key < arr ! nat guess
              then if key < arr ! nat (guess - 1)
                   then bisect key arr
                          (if guess > 8 \<and> key \<ge> arr ! nat (guess - 8) then guess - 8 else 0)
                          (guess - 1)
                   else guess - 1
              else if key < arr ! nat (guess + 1) then guess
              else if key < arr ! nat (guess + 2) then guess + 1
              else bisect key arr (guess + 2)
                     (if guess < len - 8 - 1 \<and> key < arr ! nat (guess + 8)
                      then guess + 8 else len))"

text \<open>The value for a key once its index \<open>j\<close> is found.\<close>

definition interp_value :: "real list \<Rightarrow> real list \<Rightarrow> real \<Rightarrow> int \<Rightarrow> real" where
  "interp_value xp fp x j =
     (let lenxp = int (length xp); lval = hd fp; rval = last fp
      in if j = - 1 then lval
         else if j = lenxp then rval
         else if j = lenxp - 1 then fp ! nat j
         else if xp ! nat j = x then fp ! nat j
         else (fp ! (nat j + 1) - fp ! nat j) / (xp ! (nat j + 1) - xp ! nat j)
                * (x - xp ! nat j) + fp ! nat j)"

text \<open>The loop over the keys: the index found for one key is the guess for the next.\<close>

fun interp_loop :: "real list \<Rightarrow> real list \<Rightarrow> int \<Rightarrow> real list \<Rightarrow> real list" where
  "interp_loop xp fp j [] = []"
| "interp_loop xp fp j (x # xs) =
     interp_value xp fp x (binary_search_with_guess x xp j)
       # interp_loop xp fp (binary_search_with_guess x xp j) xs"

definition np_interp :: "real list \<Rightarrow> real list \<Rightarrow> real list \<Rightarrow> real list" where
  "np_interp x xp fp =
     (if length xp = 1
      then map (\<lambda>x_val. if x_val < hd xp then hd fp
                          else if x_val > hd xp then last fp else hd fp) x
      else interp_loop xp fp 0 x)"

text \<open>
  For comparison: the interpolant at one key by the linear scan alone. On sample points
  in ascending order \<open>np_interp\<close> computes it at every key (\<open>np_interp_sorted\<close> below).
\<close>

definition interp_at :: "real list \<Rightarrow> real list \<Rightarrow> real \<Rightarrow> real" where
  "interp_at xp fp x =
     (if length xp = 1 then (if x < hd xp then hd fp else if x > hd xp then last fp else hd fp)
      else interp_value xp fp x
             (if x > last xp then int (length xp)
              else if x < hd xp then - 1 else linear_search x xp))"

text \<open>
  The query of \<^verbatim>\<open>populate_water_level\<close>, \<^verbatim>\<open>SELECT epoch, zeta_mm FROM
  water_level_staging\<close>: it has no \<^verbatim>\<open>ORDER BY\<close>, so the rows come in stored order.
\<close>

definition select_water_level_staging :: "db \<Rightarrow> (int \<times> real) list" where
  "select_water_level_staging d = water_level_staging d"

text \<open>
  \<^verbatim>\<open>zeta_t, zeta_mm = zip(*cursor.fetchall())\<close> raises \<^verbatim>\<open>ValueError\<close> when no row was
  fetched (nothing to unpack). \<^verbatim>\<open>time_grid[:-1]\<close> is \<open>butlast\<close>.
\<close>

definition populate_water_level :: "db \<Rightarrow> int list \<Rightarrow> int \<Rightarrow> db \<times> (error + unit)" where
  "populate_water_level d time_grid time_step =
     (let rows = select_water_level_staging d
      in if rows = [] then (d, Inl ValueError_unpack)
         else
           let zeta_t = map fst rows;
               zeta_mm = map snd rows;
               zeta_on_grid = np_interp (map real_of_int (butlast time_grid))
                                (map real_of_int zeta_t) zeta_mm
           in (d\<lparr>water_level := water_level d @ zip (butlast time_grid) zeta_on_grid\<rparr>,
               Inr ()))"

section \<open>The pipeline: \<^verbatim>\<open>load_data\<close>\<close>

text \<open>
  \<^verbatim>\<open>load_data\<close> from the staging inserts on, given the rainfall and water-level rows
  as \<^verbatim>\<open>generate_timestamped_rows\<close> yields them (epoch first, then the measured value).
  \<^verbatim>\<open>load_data\<close> stages the evapotranspiration rows as well, but no later stage reads
  that table, so the run is modelled without them. An exception of any stage ends the
  run with the store as that stage left it.
\<close>

definition load_data :: "(int \<times> real) list \<Rightarrow> (int \<times> real) list \<Rightarrow> db \<times> (error + unit)" where
  "load_data precipitation water_level_rows =
     (case populate_grid_time (staged precipitation water_level_rows) of
        (d1, Inl e) \<Rightarrow> (d1, Inl e)
      | (d1, Inr (time_grid, time_step)) \<Rightarrow>
          (case populate_rainfall_intensity d1 time_grid time_step of
             (d2, Inl e) \<Rightarrow> (d2, Inl e)
           | (d2, Inr u) \<Rightarrow> populate_water_level d2 time_grid time_step))"

section \<open>Timestamp Normalizer: \<^verbatim>\<open>generate_timestamped_rows\<close>\<close>

text \<open>
  \<^verbatim>\<open>datetime.strptime(text, '%Y-%m-%d %H:%M:%S')\<close> belongs to Python's library. It
  matches the text from its start against the regular expression that the format stands
  for and raises \<^verbatim>\<open>ValueError\<close> when the match fails, when text is left over
  (\<^verbatim>\<open>unconverted data remains\<close>), or when the fields are no date and time of day. The
  directives are the library's: \<^verbatim>\<open>%Y\<close> is four digits, \<^verbatim>\<open>%m\<close> is
  \<^verbatim>\<open>1[0-2]|0[1-9]|[1-9]\<close>, \<^verbatim>\<open>%d\<close> is \<^verbatim>\<open>3[01]|[12]\d|0[1-9]|[1-9]| [1-9]\<close>, \<^verbatim>\<open>%H\<close> is
  \<^verbatim>\<open>2[0-3]|[0-1]\d|\d\<close>, \<^verbatim>\<open>%M\<close> is \<^verbatim>\<open>[0-5]\d|\d\<close>, \<^verbatim>\<open>%S\<close> is \<^verbatim>\<open>6[0-1]|[0-5]\d|\d\<close>, and
  the blank of the format is \<^verbatim>\<open>\s+\<close>. Every numeric field is followed by a character
  that is no digit, so taking the first alternative that matches loses no match.
\<close>

record datetime =
  year :: nat
  month :: nat
  day :: nat
  hour :: nat
  minute :: nat
  second :: nat

definition is_digit :: "char \<Rightarrow> bool" where
  "is_digit c = (c \<in> set ''0123456789'')"

definition digit_value :: "char \<Rightarrow> nat" where
  "digit_value c = of_char c - 48"

text \<open>
  A text is the list of its characters, each a code point below 256. Among these the
  decimal digits of \<^verbatim>\<open>\d\<close> are \<^verbatim>\<open>0\<close> to \<^verbatim>\<open>9\<close>, and the whitespace of \<^verbatim>\<open>\s\<close> is the
  blank, U+0009 to U+000D, U+001C to U+001F, U+0085 and U+00A0.
\<close>

definition is_space :: "char \<Rightarrow> bool" where
  "is_space c =
     (c \<in> set [CHR '' '', CHR 0x09, CHR 0x0A, CHR 0x0B, CHR 0x0C, CHR 0x0D,
                 CHR 0x1C, CHR 0x1D, CHR 0x1E, CHR 0x1F, CHR 0x85, CHR 0xA0])"

definition digits2 :: "(nat \<Rightarrow> nat \<Rightarrow> bool) \<Rightarrow> string \<Rightarrow> (nat \<times> string) option" where
  "digits2 ok s =
     (case s of
        a # b # rest \<Rightarrow>
          if is_digit a \<and> is_digit b \<and> ok (digit_value a) (digit_value b)
          then Some (10 * digit_value a + digit_value b, rest) else None
      | _ \<Rightarrow> None)"

definition digit1 :: "(nat \<Rightarrow> bool) \<Rightarrow> string \<Rightarrow> (nat \<times> string) option" where
  "digit1 ok s =
     (case s of
        a # rest \<Rightarrow> if is_digit a \<and> ok (digit_value a) then Some (digit_value a, rest) else None
      | _ \<Rightarrow> None)"

definition alt ::
  "(string \<Rightarrow> ('a \<times> string) option) \<Rightarrow> (string \<Rightarrow> ('a \<times> string) option)
     \<Rightarrow> string \<Rightarrow> ('a \<times> string) option" where
  "alt p q s = (case p s of Some r \<Rightarrow> Some r | None \<Rightarrow> q s)"

definition literal :: "char \<Rightarrow> string \<Rightarrow> string option" where
  "literal c s = (case s of a # rest \<Rightarrow> if a = c then Some rest else None | _ \<Rightarrow> None)"

definition whitespace :: "string \<Rightarrow> string option" where
  "whitespace s =
     (case s of a # rest \<Rightarrow> if is_space a then Some (dropWhile is_space rest) else None
      | _ \<Rightarrow> None)"

definition re_Y :: "string \<Rightarrow> (nat \<times> string) option" where
  "re_Y s =
     (case s of
        a # b # c # d # rest \<Rightarrow>
          if is_digit a \<and> is_digit b \<and> is_digit c \<and> is_digit d
          then Some (1000 * digit_value a + 100 * digit_value b + 10 * digit_value c
                       + digit_value d, rest)
          else None
      | _ \<Rightarrow> None)"

definition re_m :: "string \<Rightarrow> (nat \<times> string) option" where
  "re_m = alt (digits2 (\<lambda>a b. a = 1 \<and> b \<le> 2))
            (alt (digits2 (\<lambda>a b. a = 0 \<and> 1 \<le> b)) (digit1 (\<lambda>a. 1 \<le> a)))"

definition re_d :: "string \<Rightarrow> (nat \<times> string) option" where
  "re_d = alt (digits2 (\<lambda>a b. a = 3 \<and> b \<le> 1))
            (alt (digits2 (\<lambda>a b. 1 \<le> a \<and> a \<le> 2))
               (alt (digits2 (\<lambda>a b. a = 0 \<and> 1 \<le> b))
                  (alt (digit1 (\<lambda>a. 1 \<le> a))
                     (\<lambda>s. Option.bind (literal CHR '' '' s) (digit1 (\<lambda>a. 1 \<le> a))))))"

definition re_H :: "string \<Rightarrow> (nat \<times> string) option" where
  "re_H = alt (digits2 (\<lambda>a b. a = 2 \<and> b \<le> 3))
            (alt (digits2 (\<lambda>a b. a \<le> 1)) (digit1 (\<lambda>a. True)))"

definition re_M :: "string \<Rightarrow> (nat \<times> string) option" where
  "re_M = alt (digits2 (\<lambda>a b. a \<le> 5)) (digit1 (\<lambda>a. True))"

definition re_S :: "string \<Rightarrow> (nat \<times> string) option" where
  "re_S = alt (digits2 (\<lambda>a b. a = 6 \<and> b \<le> 1))
            (alt (digits2 (\<lambda>a b. a \<le> 5)) (digit1 (\<lambda>a. True)))"

definition is_leap :: "nat \<Rightarrow> bool" where
  "is_leap y = (y mod 4 = 0 \<and> (if y mod 100 = 0 then y mod 400 = 0 else True))"

definition days_in_month :: "nat \<Rightarrow> nat \<Rightarrow> nat" where
  "days_in_month y m =
     (if m = 2 then (if is_leap y then 29 else 28)
      else if m \<in> set [4, 6, 9, 11] then 30 else 31)"

definition strptime :: "string \<Rightarrow> datetime option" where
  "strptime text =
     Option.bind (re_Y text) (\<lambda>(y, s).
     Option.bind (literal CHR ''-'' s) (\<lambda>s.
     Option.bind (re_m s) (\<lambda>(m, s).
     Option.bind (literal CHR ''-'' s) (\<lambda>s.
     Option.bind (re_d s) (\<lambda>(d, s).
     Option.bind (whitespace s) (\<lambda>s.
     Option.bind (re_H s) (\<lambda>(H, s).
     Option.bind (literal CHR '':'' s) (\<lambda>s.
     Option.bind (re_M s) (\<lambda>(M, s).
     Option.bind (literal CHR '':'' s) (\<lambda>s.
     Option.bind (re_S s) (\<lambda>(S, s).
       if s \<noteq> [] then None
       else if y < 1 \<or> days_in_month y m < d \<or> 59 < S then None
       else Some \<lparr>year = y, month = m, day = d, hour = H, minute = M, second = S\<rparr>
     )))))))))))"

text \<open>
  \<^verbatim>\<open>tz.localize(naive).timestamp()\<close>: seconds from 1970-01-01 00:00:00 UTC to the wall
  time, less the zone's UTC offset there. The zone \<^verbatim>\<open>tz\<close> is the function's argument;
  it is modelled by the offset in seconds that it gives a naive datetime (\<open>None\<close> when
  it gives none, which the \<^verbatim>\<open>assert is_aware\<close> turns down). Day numbers are Python's
  proleptic Gregorian ordinals; 1970-01-01 is day 719163.
\<close>

definition days_before_year :: "nat \<Rightarrow> int" where
  "days_before_year y =
     (let y1 = int y - 1 in y1 * 365 + y1 div 4 - y1 div 100 + y1 div 400)"

definition days_before_month :: "nat \<Rightarrow> nat \<Rightarrow> int" where
  "days_before_month y m = int (sum_list (map (days_in_month y) [1..<m]))"

definition toordinal :: "datetime \<Rightarrow> int" where
  "toordinal dt = days_before_year (year dt) + days_before_month (year dt) (month dt)
                    + int (day dt)"

definition timestamp :: "datetime \<Rightarrow> real \<Rightarrow> real" where
  "timestamp dt utcoffset =
     real_of_int ((toordinal dt - 719163) * 86400 + int (hour dt) * 3600
                    + int (minute dt) * 60 + int (second dt)) - utcoffset"

text \<open>\<^verbatim>\<open>float.is_integer()\<close> and \<^verbatim>\<open>int(float)\<close>, which truncates towards zero.\<close>

definition is_integer :: "real \<Rightarrow> bool" where
  "is_integer x = (real_of_int \<lfloor>x\<rfloor> = x)"

definition py_int :: "real \<Rightarrow> int" where
  "py_int x = (if 0 \<le> x then \<lfloor>x\<rfloor> else \<lceil>x\<rceil>)"

text \<open>
  One turn of the loop of \<^verbatim>\<open>generate_timestamped_rows\<close>: the row it yields,
  \<^verbatim>\<open>[int(epoch)] + row[1:]\<close>, is the epoch paired with the remaining fields. \<^verbatim>\<open>row[0]\<close>
  of an empty row raises \<^verbatim>\<open>IndexError\<close>.
\<close>

definition timestamped_row ::
  "(datetime \<Rightarrow> real option) \<Rightarrow> string list \<Rightarrow> error + (int \<times> string list)" where
  "timestamped_row tz row =
     (case row of
        [] \<Rightarrow> Inl IndexError
      | text # rest \<Rightarrow>
          (case strptime text of
             None \<Rightarrow> Inl (ValueError_strptime text)
           | Some naive \<Rightarrow>
               (case tz naive of
                  None \<Rightarrow> Inl AssertionError
                | Some utcoffset \<Rightarrow>
                    let epoch = timestamp naive utcoffset
                    in if \<not> is_integer epoch then Inl (ValueError_non_integer_seconds text)
                       else Inr (py_int epoch, rest))))"

text \<open>
  The generator: the rows yielded, in order, up to the first exception, and that
  exception if there is one.
\<close>

fun generate_timestamped_rows ::
  "string list list \<Rightarrow> (datetime \<Rightarrow> real option) \<Rightarrow> (int \<times> string list) list \<times> error option" where
  "generate_timestamped_rows [] tz = ([], None)"
| "generate_timestamped_rows (row # rows) tz =
     (case timestamped_row tz row of
        Inl e \<Rightarrow> ([], Some e)
      | Inr r \<Rightarrow> (r # fst (generate_timestamped_rows rows tz),
                  snd (generate_timestamped_rows rows tz)))"

text \<open>The zone UTC: offset zero everywhere.\<close>

definition utc :: "datetime \<Rightarrow> real option" where
  "utc dt = Some 0"

text \<open>
  The timestamp format in the spec's words, \<^verbatim>\<open>YYYY-MM-DD HH:MM:SS\<close>: nineteen characters,
  digits where the letters stand, with the two hyphens, the blank and the two colons in
  their places. It is compared with what \<^verbatim>\<open>strptime\<close> accepts below.
\<close>

definition iso_8601_shape :: "string \<Rightarrow> bool" where
  "iso_8601_shape s =
     (map (\<lambda>c. if is_digit c then CHR ''9'' else c) s = ''9999-99-99 99:99:99'')"

text \<open>
  The characters that the regular expression of the format can match: digits, the
  hyphen, the colon and whitespace.
\<close>

definition format_char :: "char \<Rightarrow> bool" where
  "format_char c = (is_digit c \<or> c = CHR ''-'' \<or> c = CHR '':'' \<or> is_space c)"

section \<open>The candidate grid in the spec's words\<close>

text \<open>
  Section 4.3 of the spec, steps 1 and 2: the rainfall-staging epochs \<open>e\<close> with
  \<open>min_w \<le> e \<le> max_w\<close>, sorted ascending, where \<open>min_w\<close> and \<open>max_w\<close> are the least
  and the greatest epoch of the water-level staging series. It is compared with the
  query of \<^verbatim>\<open>populate_grid_time\<close> below.
\<close>

definition candidate_grid :: "(int \<times> real) list \<Rightarrow> (int \<times> real) list \<Rightarrow> int list" where
  "candidate_grid rain water =
     sort (filter (\<lambda>e. Min (fst ` set water) \<le> e \<and> e \<le> Max (fst ` set water))
             (map fst rain))"

section \<open>Auxiliary facts\<close>

lemma staged_simps:
  "rainfall_intensity_staging (staged rain water) = rain"
  "water_level_staging (staged rain water) = water"
  "time_grid_table (staged rain water) = []"
  "grid_time (staged rain water) = []"
  "rainfall_intensity (staged rain water) = []"
  "water_level (staged rain water) = []"
  by (simp_all add: staged_def insert_water_level_staging_def
      insert_rainfall_intensity_staging_def empty_db_def)

lemma populate_grid_time_Inl:
  assumes "length (sort (remdups (np_diff (select_time_grid d)))) \<noteq> 1"
  shows "populate_grid_time d =
           (d, Inl (ValueError_nonuniform_time_steps
                      (sort (remdups (np_diff (select_time_grid d))))))"
  using assms by (simp add: populate_grid_time_def Let_def)

lemma load_data_Inl:
  assumes "populate_grid_time (staged rain water) = (d, Inl e)"
  shows "load_data rain water = (d, Inl e)"
  using assms by (simp add: load_data_def)

lemma sql_min_eq: "sql_min xs = (if xs = [] then None else Some (Min (set xs)))"
  by (cases xs) (simp_all add: sql_min_def Min.set_eq_fold[symmetric])

lemma sql_max_eq: "sql_max xs = (if xs = [] then None else Some (Max (set xs)))"
  by (cases xs) (simp_all add: sql_max_def Max.set_eq_fold[symmetric])

lemma select_time_grid_eq:
  "select_time_grid d =
     (if water_level_staging d = [] then []
      else sort (filter (\<lambda>e. Min (fst ` set (water_level_staging d)) \<le> e
                            \<and> e \<le> Max (fst ` set (water_level_staging d)))
                   (map fst (rainfall_intensity_staging d))))"
  by (simp add: select_time_grid_def sql_min_eq sql_max_eq)

lemma sorted_select_time_grid: "sorted (select_time_grid d)"
  by (simp add: select_time_grid_eq)

lemma length_np_diff: "length (np_diff xs) = length xs - 1"
  by (induction xs rule: np_diff.induct) simp_all

lemma nth_np_diff: "Suc i < length xs \<Longrightarrow> np_diff xs ! i = xs ! Suc i - xs ! i"
proof (induction xs arbitrary: i rule: np_diff.induct)
  case (1 x y xs)
  then show ?case by (cases i) simp_all
qed simp_all

lemma np_diff_uniform:
  "set (np_diff xs) \<subseteq> {S} \<longleftrightarrow> (\<forall>i. Suc i < length xs \<longrightarrow> xs ! Suc i = xs ! i + S)"
proof
  assume l: "set (np_diff xs) \<subseteq> {S}"
  show "\<forall>i. Suc i < length xs \<longrightarrow> xs ! Suc i = xs ! i + S"
  proof (intro allI impI)
    fix i assume i: "Suc i < length xs"
    then have "i < length (np_diff xs)" by (simp add: length_np_diff)
    then have "np_diff xs ! i \<in> set (np_diff xs)" by (rule nth_mem)
    with l have "np_diff xs ! i = S" by auto
    with i show "xs ! Suc i = xs ! i + S" by (simp add: nth_np_diff)
  qed
next
  assume r: "\<forall>i. Suc i < length xs \<longrightarrow> xs ! Suc i = xs ! i + S"
  show "set (np_diff xs) \<subseteq> {S}"
  proof
    fix x assume "x \<in> set (np_diff xs)"
    then obtain i where i: "i < length (np_diff xs)" and x: "x = np_diff xs ! i"
      by (auto simp: in_set_conv_nth)
    from i have "Suc i < length xs" by (simp add: length_np_diff)
    with r x show "x \<in> {S}" by (simp add: nth_np_diff)
  qed
qed

lemma uniform_nth:
  assumes "\<forall>i. Suc i < length xs \<longrightarrow> xs ! Suc i = xs ! i + (S::int)" and "i < length xs"
  shows "xs ! i = xs ! 0 + int i * S"
  using assms(2)
proof (induction i)
  case 0
  then show ?case by simp
next
  case (Suc i)
  then show ?case using assms(1) by (simp add: algebra_simps)
qed

lemma delta_t_singleton:
  "length (sort (remdups ds)) = 1 \<longleftrightarrow> set ds = {hd (sort (remdups (ds::int list)))} "
proof
  assume "length (sort (remdups ds)) = 1"
  then obtain x where x: "sort (remdups ds) = [x]"
    by (cases "sort (remdups ds)") simp_all
  have "set ds = set (sort (remdups ds))" by simp
  also have "\<dots> = {x}" by (simp only: x list.set)
  finally show "set ds = {hd (sort (remdups ds))}" using x by simp
next
  assume a: "set ds = {hd (sort (remdups ds))}"
  have "length (sort (remdups ds)) = card (set ds)"
    by (simp add: length_remdups_card_conv)
  also have "\<dots> = 1" by (subst a) simp
  finally show "length (sort (remdups ds)) = 1" .
qed

lemma populate_grid_time_Inr:
  assumes "populate_grid_time d = (d', Inr (grid, S))"
  shows "set (np_diff (select_time_grid d)) = {S}"
    and "2 \<le> length (select_time_grid d)"
    and "grid = select_time_grid d @ [last (select_time_grid d) + S]"
    and "d' = d\<lparr>time_grid_table := time_grid_table d @ [S], grid_time := grid_time d @ grid\<rparr>"
proof -
  let ?tg = "select_time_grid d"
  let ?dt = "sort (remdups (np_diff ?tg))"
  from assms have len: "length ?dt = 1"
    by (auto simp: populate_grid_time_def Let_def split: if_splits)
  then have set: "set (np_diff ?tg) = {hd ?dt}" by (simp only: delta_t_singleton)
  then have "np_diff ?tg \<noteq> []" by auto
  then have "0 < length (np_diff ?tg)" by simp
  then have two: "2 \<le> length ?tg" by (simp add: length_np_diff)
  then have idx: "index_from_end ?tg 1 = Inr (last ?tg)"
    by (cases ?tg) (auto simp: index_from_end_def last_conv_nth)
  from assms len idx have S: "S = hd ?dt"
    and g: "grid = ?tg @ [last ?tg + S]"
    and d: "d' = d\<lparr>time_grid_table := time_grid_table d @ [S], grid_time := grid_time d @ grid\<rparr>"
    by (auto simp: populate_grid_time_def Let_def)
  from set S show "set (np_diff ?tg) = {S}" by simp
  from two show "2 \<le> length ?tg" .
  from g show "grid = ?tg @ [last ?tg + S]" .
  from d show "d' = d\<lparr>time_grid_table := time_grid_table d @ [S], grid_time := grid_time d @ grid\<rparr>" .
qed


lemma select_time_grid_candidate:
  "water \<noteq> [] \<Longrightarrow> select_time_grid (staged rain water) = candidate_grid rain water"
  by (simp add: select_time_grid_eq candidate_grid_def staged_simps)

lemma populate_grid_time_uniform:
  assumes "populate_grid_time d = (d', Inr (grid, S))"
  shows "\<forall>i. Suc i < length grid \<longrightarrow> grid ! Suc i = grid ! i + S"
proof (intro allI impI)
  fix i assume i: "Suc i < length grid"
  let ?tg = "select_time_grid d"
  note r = populate_grid_time_Inr [OF assms]
  from r(1) have u: "\<forall>i. Suc i < length ?tg \<longrightarrow> ?tg ! Suc i = ?tg ! i + S"
    by (simp add: np_diff_uniform [symmetric])
  from r(2) have ne: "?tg \<noteq> []" by auto
  show "grid ! Suc i = grid ! i + S"
  proof (cases "Suc i < length ?tg")
    case True
    with u r(3) show ?thesis by (simp add: nth_append)
  next
    case False
    with i r(3) have e: "length ?tg = Suc i" by simp
    then have "last ?tg = ?tg ! i" using ne by (simp add: last_conv_nth)
    with r(3) e show ?thesis by (simp add: nth_append)
  qed
qed

lemma populate_grid_time_step_nonneg:
  assumes "populate_grid_time d = (d', Inr (grid, S))"
  shows "0 \<le> S"
proof -
  let ?tg = "select_time_grid d"
  note r = populate_grid_time_Inr [OF assms]
  from r(1) have u: "\<forall>i. Suc i < length ?tg \<longrightarrow> ?tg ! Suc i = ?tg ! i + S"
    by (simp add: np_diff_uniform [symmetric])
  with r(2) have "?tg ! Suc 0 = ?tg ! 0 + S" by simp
  moreover have "?tg ! 0 \<le> ?tg ! Suc 0"
    using sorted_select_time_grid [of d] r(2) by (simp add: sorted_iff_nth_Suc)
  ultimately show ?thesis by simp
qed

lemma set_select_rainfall_intervals:
  "(e, t, v) \<in> set (select_rainfall_intervals d S b) \<longleftrightarrow>
     (e, v) \<in> set (rainfall_intensity_staging d) \<and> t = e + S \<and> e \<in> set (grid_time d) \<and> e \<le> b"
  by (auto simp: select_rainfall_intervals_def)

lemma populate_rainfall_intensity_Inr:
  assumes "2 \<le> length tg"
  shows "populate_rainfall_intensity d tg S =
           (d\<lparr>rainfall_intensity := rainfall_intensity d @
                select_rainfall_intervals d S (tg ! (length tg - 2))\<rparr>, Inr ())"
  using assms by (simp add: populate_rainfall_intensity_def index_from_end_def)

lemma populate_grid_time_staged:
  assumes "populate_grid_time (staged rain water) = (d1, Inr (grid, S))"
  shows "d1 = (staged rain water)\<lparr>time_grid_table := [S], grid_time := grid\<rparr>"
    and "water \<noteq> []" and "3 \<le> length grid"
    and "grid ! (length grid - 2) = last (select_time_grid (staged rain water))"
proof -
  let ?tg = "select_time_grid (staged rain water)"
  note r = populate_grid_time_Inr [OF assms]
  from r(4) show "d1 = (staged rain water)\<lparr>time_grid_table := [S], grid_time := grid\<rparr>"
    by (simp add: staged_simps)
  from r(2) show "water \<noteq> []" by (auto simp: select_time_grid_eq staged_simps)
  have l: "length grid = length ?tg + 1" by (subst r(3)) simp
  with r(2) show "3 \<le> length grid" by linarith
  from r(2) have ne: "?tg \<noteq> []" by auto
  have "length grid - 2 = length ?tg - 1" using l by simp
  moreover have "length ?tg - 1 < length ?tg" using r(2) by linarith
  ultimately have "grid ! (length grid - 2) = ?tg ! (length ?tg - 1)"
    by (subst r(3)) (simp add: nth_append)
  with ne show "grid ! (length grid - 2) = last ?tg" by (simp add: last_conv_nth)
qed

lemma load_data_Inr:
  assumes "populate_grid_time (staged rain water) = (d1, Inr (grid, S))"
  shows "load_data rain water =
           ((staged rain water)
              \<lparr>time_grid_table := [S], grid_time := grid,
               rainfall_intensity :=
                 select_rainfall_intervals d1 S (grid ! (length grid - 2)),
               water_level :=
                 zip (butlast grid)
                   (np_interp (map real_of_int (butlast grid))
                      (map real_of_int (map fst water)) (map snd water))\<rparr>,
            Inr ())"
proof -
  note s = populate_grid_time_staged [OF assms]
  from s(3) have two: "2 \<le> length grid" by linarith
  show ?thesis
    using s(2)
    by (simp add: load_data_def assms populate_rainfall_intensity_Inr [OF two]
        populate_water_level_def select_water_level_staging_def Let_def s(1) staged_simps)
qed

lemma filter_eq_distinct:
  "distinct xs \<Longrightarrow> e \<in> set xs \<Longrightarrow> filter (\<lambda>x. x = e) xs = [e]"
proof (induction xs)
  case Nil
  then show ?case by simp
next
  case (Cons a xs)
  show ?case
  proof (cases "a = e")
    case True
    with Cons.prems have "e \<notin> set xs" by simp
    then have "filter (\<lambda>x. x = e) xs = []" by (auto simp: filter_empty_conv)
    with True show ?thesis by simp
  next
    case False
    with Cons show ?thesis by simp
  qed
qed

lemma concat_map_if:
  "concat (map (\<lambda>x. if P x then [f x] else []) xs) = map f (filter P xs)"
  by (induction xs) simp_all

lemma sorted_le_last:
  assumes "sorted xs" and "x \<in> set xs"
  shows "x \<le> last (xs :: int list)"
proof -
  from assms(2) have ne: "xs \<noteq> []" by auto
  then have "xs = butlast xs @ [last xs]" by simp
  then have "sorted (butlast xs @ [last xs])" using assms(1) by simp
  then have "\<forall>y \<in> set (butlast xs). y \<le> last xs" by (simp add: sorted_append)
  moreover from assms(2) ne have "x \<in> set (butlast xs) \<or> x = last xs"
    by (metis Un_iff append_butlast_last_id empty_iff empty_set set_ConsD set_append)
  ultimately show ?thesis by auto
qed

lemma sorted_hd_le:
  assumes "sorted xs" and "x \<in> set xs"
  shows "hd xs \<le> (x :: int)"
  using assms by (cases xs) auto

lemma select_time_grid_subset:
  "set (select_time_grid d) \<subseteq> fst ` set (rainfall_intensity_staging d)"
  by (auto simp: select_time_grid_eq)

lemma positive_step_iff_distinct:
  assumes "populate_grid_time d = (d', Inr (grid, S))"
  shows "0 < S \<longleftrightarrow> distinct (select_time_grid d)"
proof
  let ?tg = "select_time_grid d"
  note r = populate_grid_time_Inr [OF assms]
  have tgu: "\<forall>i. Suc i < length ?tg \<longrightarrow> ?tg ! Suc i = ?tg ! i + S"
    using r(1) by (simp add: np_diff_uniform [symmetric])
  {
    assume "0 < S"
    with tgu have "sorted_wrt (<) ?tg" by (simp add: sorted_wrt_iff_nth_Suc_transp)
    then show "distinct ?tg" by (simp add: strict_sorted_iff)
  }
  {
    assume "distinct ?tg"
    moreover from r(2) have "0 < length ?tg" "Suc 0 < length ?tg" by linarith+
    ultimately have "?tg ! 0 \<noteq> ?tg ! Suc 0" by (simp add: nth_eq_iff_index_eq)
    moreover from tgu r(2) have "?tg ! Suc 0 = ?tg ! 0 + S" by simp
    ultimately have "S \<noteq> 0" by simp
    with populate_grid_time_step_nonneg [OF assms] show "0 < S" by simp
  }
qed

lemma grid_filter_epoch:
  assumes pg: "populate_grid_time d = (d', Inr (grid, S))" and pos: "0 < S"
  shows "filter (\<lambda>gt. gt = e \<and> e \<le> last (select_time_grid d)) grid =
           (if e \<in> set (select_time_grid d) then [e] else [])"
proof -
  let ?tg = "select_time_grid d"
  note r = populate_grid_time_Inr [OF pg]
  from pos have dist: "distinct ?tg" by (simp add: positive_step_iff_distinct [OF pg])
  show ?thesis
  proof (cases "e \<in> set ?tg")
    case True
    then have le: "e \<le> last ?tg" by (simp add: sorted_le_last sorted_select_time_grid)
    then have "filter (\<lambda>gt. gt = e \<and> e \<le> last ?tg) ?tg = filter (\<lambda>gt. gt = e) ?tg"
      by simp
    also have "\<dots> = [e]" using dist True by (rule filter_eq_distinct)
    finally have a: "filter (\<lambda>gt. gt = e \<and> e \<le> last ?tg) ?tg = [e]" .
    from le pos have "last ?tg + S \<noteq> e" by simp
    with a True show ?thesis by (subst r(3)) simp
  next
    case False
    then have a: "filter (\<lambda>gt. gt = e \<and> e \<le> last ?tg) ?tg = []"
      by (auto simp: filter_empty_conv)
    from pos have "\<not> (last ?tg + S = e \<and> e \<le> last ?tg)" by auto
    with a False show ?thesis by (subst r(3)) simp
  qed
qed

lemma select_rainfall_intervals_positive_step:
  assumes pg: "populate_grid_time (staged rain water) = (d1, Inr (grid, S))" and pos: "0 < S"
  shows "select_rainfall_intervals d1 S (grid ! (length grid - 2)) =
           map (\<lambda>(e, v). (e, e + S, v))
             (filter (\<lambda>(e, v). e \<in> set (select_time_grid (staged rain water))) rain)"
proof -
  let ?tg = "select_time_grid (staged rain water)"
  note s = populate_grid_time_staged [OF pg]
  have d1: "rainfall_intensity_staging d1 = rain" "grid_time d1 = grid"
    by (simp_all add: s(1) staged_simps)
  have f: "(\<lambda>(e, v). map (\<lambda>gt. (e, e + S, v)) (filter (\<lambda>gt. gt = e \<and> e \<le> last ?tg) grid))
         = (\<lambda>x. if (\<lambda>(e, v). e \<in> set ?tg) x then [(\<lambda>(e, v). (e, e + S, v)) x] else [])"
    by (auto simp: fun_eq_iff grid_filter_epoch [OF pg pos])
  show ?thesis
    unfolding select_rainfall_intervals_def d1 s(4) f by (rule concat_map_if)
qed

lemma froms_positive_step:
  assumes pg: "populate_grid_time (staged rain water) = (d1, Inr (grid, S))" and pos: "0 < S"
  shows "sort (map fst (select_rainfall_intervals d1 S (grid ! (length grid - 2))))
           = select_time_grid (staged rain water)"
proof -
  let ?tg = "select_time_grid (staged rain water)"
  note s = populate_grid_time_staged [OF pg]
  have "map fst (select_rainfall_intervals d1 S (grid ! (length grid - 2)))
          = filter (\<lambda>e. e \<in> set ?tg) (map fst rain)"
    by (simp add: select_rainfall_intervals_positive_step [OF pg pos] filter_map comp_def
        case_prod_unfold)
  also have "\<dots> = filter (\<lambda>e. Min (fst ` set water) \<le> e \<and> e \<le> Max (fst ` set water))
                     (map fst rain)"
    using s(2) by (intro filter_cong) (auto simp: select_time_grid_eq staged_simps)
  finally show ?thesis using s(2) by (simp add: select_time_grid_eq staged_simps)
qed


lemma map_sort_key_self: "map f (sort_key f xs) = sort (map f xs)"
  by (rule properties_for_sort [symmetric]) simp_all

lemma load_data_success:
  assumes "load_data rain water = (d', Inr ())"
  shows "populate_grid_time (staged rain water) =
           ((staged rain water)\<lparr>time_grid_table := [hd (time_grid_table d')],
                                 grid_time := grid_time d'\<rparr>,
            Inr (grid_time d', hd (time_grid_table d')))"
proof (cases "populate_grid_time (staged rain water)")
  case (Pair d1 res)
  show ?thesis
  proof (cases res)
    case (Inl e)
    with Pair assms show ?thesis by (simp add: load_data_def)
  next
    case (Inr gs)
    obtain grid S where gs: "gs = (grid, S)" by (cases gs)
    from Pair Inr gs have pg: "populate_grid_time (staged rain water) = (d1, Inr (grid, S))"
      by simp
    from load_data_Inr [OF pg] assms have "grid_time d' = grid" "time_grid_table d' = [S]"
      by auto
    with pg populate_grid_time_staged(1) [OF pg] show ?thesis by simp
  qed
qed

lemma rainfall_rows_on_grid:
  assumes pg: "populate_grid_time (staged rain water) = (d1, Inr (grid, S))"
  shows "(e, t, v) \<in> set (select_rainfall_intervals d1 S (grid ! (length grid - 2))) \<longleftrightarrow>
           (e, v) \<in> set rain \<and> t = e + S \<and> e \<in> set (select_time_grid (staged rain water))"
proof -
  let ?tg = "select_time_grid (staged rain water)"
  note r = populate_grid_time_Inr [OF pg]
  note s = populate_grid_time_staged [OF pg]
  have d1: "rainfall_intensity_staging d1 = rain" "grid_time d1 = grid"
    by (simp_all add: s(1) staged_simps)
  have n: "0 \<le> S" by (rule populate_grid_time_step_nonneg [OF pg])
  from r(2) have ne: "?tg \<noteq> []" by auto
  have "e \<in> set grid \<and> e \<le> last ?tg \<longleftrightarrow> e \<in> set ?tg"
  proof
    assume a: "e \<in> set grid \<and> e \<le> last ?tg"
    then have "e \<in> set (?tg @ [last ?tg + S])" by (simp add: r(3) [symmetric])
    then have "e \<in> set ?tg \<or> e = last ?tg + S" by auto
    then show "e \<in> set ?tg"
    proof
      assume "e \<in> set ?tg"
      then show ?thesis .
    next
      assume "e = last ?tg + S"
      with a n have "e = last ?tg" by simp
      with ne show ?thesis by simp
    qed
  next
    assume m: "e \<in> set ?tg"
    then have "e \<in> set (?tg @ [last ?tg + S])" by simp
    then have "e \<in> set grid" by (simp add: r(3) [symmetric])
    moreover from m have "e \<le> last ?tg" by (simp add: sorted_le_last sorted_select_time_grid)
    ultimately show "e \<in> set grid \<and> e \<le> last ?tg" by simp
  qed
  then show ?thesis by (auto simp: set_select_rainfall_intervals d1 s(4))
qed


lemma zero_step_all_equal:
  assumes pg: "populate_grid_time d = (d', Inr (grid, 0))" and "e \<in> set (select_time_grid d)"
  shows "e = hd (select_time_grid d)"
proof -
  let ?tg = "select_time_grid d"
  note r = populate_grid_time_Inr [OF pg]
  have u: "\<forall>i. Suc i < length ?tg \<longrightarrow> ?tg ! Suc i = ?tg ! i + 0"
    using r(1) by (simp only: np_diff_uniform [symmetric])
  from assms(2) obtain i where i: "i < length ?tg" "e = ?tg ! i"
    by (auto simp: in_set_conv_nth)
  from uniform_nth [OF u i(1)] i(2) have "e = ?tg ! 0" by simp
  with i(1) show ?thesis by (cases ?tg) simp_all
qed

lemma strptime_subsecond: "strptime ''2020-01-01 00:00:00.5'' = None"
  by code_simp

lemma strptime_midnight:
  "strptime ''2020-01-01 00:00:00''
     = Some \<lparr>year = 2020, month = 1, day = 1, hour = 0, minute = 0, second = 0\<rparr>"
  by code_simp

lemma timestamp_midnight:
  "timestamp \<lparr>year = 2020, month = 1, day = 1, hour = 0, minute = 0, second = 0\<rparr> 0 = 1577836800"
  by (simp add: timestamp_def toordinal_def days_before_year_def days_before_month_def)

lemma is_integer_iff: "is_integer x \<longleftrightarrow> x \<in> \<int>"
  unfolding is_integer_def
  by (metis Ints_of_int of_int_floor)

lemma py_int_integer: "x \<in> \<int> \<Longrightarrow> real_of_int (py_int x) = x"
  by (auto simp: py_int_def elim!: Ints_cases)

lemma generate_timestamped_rows_append:
  assumes "map (timestamped_row tz) good = map Inr out" and "timestamped_row tz row = Inl e"
  shows "generate_timestamped_rows (good @ row # later) tz = (out, Some e)"
  using assms
proof (induction good arbitrary: out)
  case Nil
  then show ?case by simp
next
  case (Cons g good)
  then obtain o1 out' where o: "out = o1 # out'" by (cases out) auto
  with Cons.prems have "timestamped_row tz g = Inr o1"
    and "map (timestamped_row tz) good = map Inr out'" by simp_all
  with Cons.IH [of out'] Cons.prems(2) o show ?case by simp
qed

lemma generate_timestamped_rows_all:
  "generate_timestamped_rows rows tz = (out, None) \<longleftrightarrow>
     map (timestamped_row tz) rows = map Inr out"
proof (induction rows arbitrary: out)
  case Nil
  then show ?case by auto
next
  case (Cons row rows)
  show ?case
  proof (cases "timestamped_row tz row")
    case (Inl e)
    then show ?thesis by (cases out) auto
  next
    case (Inr r)
    obtain ys err where g: "generate_timestamped_rows rows tz = (ys, err)"
      by (cases "generate_timestamped_rows rows tz")
    show ?thesis
    proof (cases out)
      case Nil
      with Inr g show ?thesis by simp
    next
      case (Cons o1 out')
      with Inr g Cons.IH [of out'] show ?thesis by auto
    qed
  qed
qed


text \<open>
  Water-level interpolation on a series stored in ascending epoch order: the index search
  of numpy, whatever its guess, finds the same index as the linear scan, which is the
  interval of the key; and the value is the left fill value below the first epoch, the
  right fill value above the last, a staged value at a staged epoch, and on the line
  through the two neighbouring samples in between.
\<close>

lemma search_below:
  assumes "xp \<noteq> []" and "hd xp \<le> x"
  shows "xp ! length (takeWhile (\<lambda>a. x \<ge> a) (tl xp)) \<le> (x :: real)"
proof (cases "length (takeWhile (\<lambda>a. x \<ge> a) (tl xp))")
  case 0
  with assms show ?thesis by (simp add: hd_conv_nth)
next
  case (Suc m)
  let ?t = "takeWhile (\<lambda>a. x \<ge> a) (tl xp)"
  from Suc have m: "m < length ?t" by simp
  then have "?t ! m \<in> set ?t" by (rule nth_mem)
  then have "?t ! m \<le> x" by (auto dest: set_takeWhileD)
  moreover have "?t ! m = tl xp ! m" using m by (rule takeWhile_nth)
  moreover have "tl xp ! m = xp ! Suc m" using assms(1) by (cases xp) simp_all
  ultimately show ?thesis using Suc by simp
qed

lemma search_above:
  assumes "Suc (length (takeWhile (\<lambda>a. x \<ge> a) (tl xp))) < length xp"
  shows "(x :: real) < xp ! Suc (length (takeWhile (\<lambda>a. x \<ge> a) (tl xp)))"
proof -
  let ?j = "length (takeWhile (\<lambda>a. x \<ge> a) (tl xp))"
  from assms have "?j < length (tl xp)" by simp
  then have "\<not> x \<ge> tl xp ! ?j" by (rule nth_length_takeWhile)
  moreover have "tl xp ! ?j = xp ! Suc ?j" using assms by (cases xp) simp_all
  ultimately show ?thesis by simp
qed

lemma search_sorted:
  assumes "sorted xp" and "Suc j < length xp" and "xp ! j \<le> x" and "x < xp ! Suc j"
  shows "length (takeWhile (\<lambda>a. x \<ge> a) (tl xp)) = (j :: nat)"
proof -
  have t: "tl xp ! i = xp ! Suc i" if "i < length (tl xp)" for i
    using that by (cases xp) simp_all
  have "takeWhile (\<lambda>a. x \<ge> a) (tl xp) = take j (tl xp)"
  proof (rule takeWhile_eq_take_P_nth)
    fix i assume "i < j" "i < length (tl xp)"
    then have "xp ! Suc i \<le> xp ! j" using assms(1,2) by (simp add: sorted_nth_mono)
    with assms(3) t [OF \<open>i < length (tl xp)\<close>] show "tl xp ! i \<le> x" by simp
  next
    assume "j < length (tl xp)"
    with assms(4) t show "\<not> tl xp ! j \<le> x" by simp
  qed
  with assms(2) show ?thesis by simp
qed

lemma interp_at_below:
  assumes "sorted xp" and "xp \<noteq> []" and "x < hd xp"
  shows "interp_at xp fp x = hd fp"
proof -
  from assms(1,2) have "hd xp \<le> last xp"
    by (metis hd_conv_nth last_conv_nth sorted_nth_mono diff_less le0 length_greater_0_conv
        zero_less_one)
  with assms(3) have "\<not> x > last xp" by simp
  with assms(3) show ?thesis
    by (simp add: interp_at_def interp_value_def Let_def)
qed

lemma interp_at_above:
  assumes "xp \<noteq> []" and "last xp < x"
  shows "interp_at xp fp x = last fp"
proof (cases "length xp = 1")
  case True
  then have "hd xp = last xp" by (cases xp) simp_all
  with True assms(2) show ?thesis by (simp add: interp_at_def Let_def)
next
  case False
  with assms show ?thesis
    by (simp add: interp_at_def interp_value_def Let_def)
qed

lemma interp_at_between:
  assumes "sorted xp" and "Suc j < length xp" and "xp ! j \<le> x" and "x < xp ! Suc j"
  shows "interp_at xp fp x =
           fp ! j + (fp ! Suc j - fp ! j) / (xp ! Suc j - xp ! j) * (x - xp ! j)"
proof -
  have s: "length (takeWhile (\<lambda>a. x \<ge> a) (tl xp)) = j" by (rule search_sorted [OF assms])
  from assms(2) have ne: "xp \<noteq> []" by auto
  have "hd xp \<le> xp ! j" using assms(1,2) ne by (simp add: hd_conv_nth sorted_nth_mono)
  with assms(3) have lo: "\<not> x < hd xp" by simp
  have "xp ! Suc j \<le> last xp" using assms(1,2) ne by (simp add: last_conv_nth sorted_nth_mono)
  with assms(4) have hi: "\<not> x > last xp" by simp
  from s have b: "linear_search x xp = int j"
    by (simp add: linear_search_def)
  from assms(2) lo hi show ?thesis
    by (auto simp: interp_at_def interp_value_def b Let_def)
qed

lemma interp_at_knot:
  assumes "sorted xp" and "length fp = length xp" and "k < length xp" and "x = xp ! k"
  shows "\<exists>j < length xp. xp ! j = x \<and> interp_at xp fp x = fp ! j"
proof (cases "length xp = 1")
  case True
  with assms(3) have k: "k = 0" by simp
  from True have "hd xp = xp ! 0" by (cases xp) simp_all
  moreover from True assms(2) have "hd fp = fp ! 0" by (cases fp) simp_all
  ultimately have "interp_at xp fp x = fp ! 0"
    using True k assms(4) by (simp add: interp_at_def Let_def)
  with k assms(3,4) show ?thesis by auto
next
  case False
  let ?j = "length (takeWhile (\<lambda>a. x \<ge> a) (tl xp))"
  from assms(3) have ne: "xp \<noteq> []" by auto
  have "?j \<le> length (tl xp)" by (rule length_takeWhile_le)
  moreover have "length (tl xp) < length xp" using ne by simp
  ultimately have jn: "?j < length xp" by linarith
  have "hd xp \<le> xp ! k" using assms(1,3) ne by (simp add: hd_conv_nth sorted_nth_mono)
  with assms(4) have lo: "hd xp \<le> x" by simp
  have "xp ! k \<le> last xp" using assms(1,3) ne by (simp add: last_conv_nth sorted_nth_mono)
  with assms(4) have hi: "x \<le> last xp" by simp
  have b: "linear_search x xp = int ?j"
    by (simp add: linear_search_def)
  have below: "xp ! ?j \<le> x" by (rule search_below [OF ne lo])
  have eq: "xp ! ?j = x"
  proof (cases "k \<le> ?j")
    case True
    with assms(1) jn have "xp ! k \<le> xp ! ?j" by (simp add: sorted_nth_mono)
    with below assms(4) show ?thesis by simp
  next
    case False
    then have "Suc ?j \<le> k" by simp
    with assms(3) have sj: "Suc ?j < length xp" by simp
    then have "x < xp ! Suc ?j" by (rule search_above)
    moreover from assms(1,3) \<open>Suc ?j \<le> k\<close> have "xp ! Suc ?j \<le> xp ! k"
      by (simp add: sorted_nth_mono)
    ultimately show ?thesis using assms(4) by simp
  qed
  have "interp_at xp fp x = fp ! ?j"
    using False jn eq lo hi
    by (simp add: interp_at_def interp_value_def b Let_def) (metis nat_int)
  with jn eq show ?thesis by blast
qed

lemma interp_at_knot_distinct:
  assumes "sorted xp" and "distinct xp" and "length fp = length xp" and "k < length xp"
  shows "interp_at xp fp (xp ! k) = fp ! k"
proof -
  from interp_at_knot [OF assms(1,3,4) refl] obtain j
    where j: "j < length xp" "xp ! j = xp ! k" "interp_at xp fp (xp ! k) = fp ! j"
    by blast
  from assms(2,4) j(1,2) have "j = k" by (simp add: nth_eq_iff_index_eq)
  with j(3) show ?thesis by simp
qed


lemma sorted_count_le:
  assumes "sorted arr" and "i < length arr"
  shows "arr ! i \<le> key \<longleftrightarrow> i < length (takeWhile (\<lambda>a. key \<ge> a) (arr :: real list))"
proof
  let ?c = "length (takeWhile (\<lambda>a. key \<ge> a) arr)"
  assume le: "arr ! i \<le> key"
  show "i < ?c"
  proof (rule ccontr)
    assume "\<not> i < ?c"
    then have ci: "?c \<le> i" by simp
    with assms(2) have c: "?c < length arr" by simp
    then have "\<not> key \<ge> arr ! ?c" by (rule nth_length_takeWhile)
    moreover from assms ci have "arr ! ?c \<le> arr ! i" by (simp add: sorted_nth_mono)
    ultimately show False using le by simp
  qed
next
  let ?t = "takeWhile (\<lambda>a. key \<ge> a) arr"
  assume i: "i < length ?t"
  then have "?t ! i \<in> set ?t" by (rule nth_mem)
  then have "?t ! i \<le> key" by (auto dest: set_takeWhileD)
  moreover have "?t ! i = arr ! i" using i by (rule takeWhile_nth)
  ultimately show "arr ! i \<le> key" by simp
qed

lemma sorted_count_int:
  assumes "sorted arr" and "0 \<le> i" and "i < int (length arr)"
  shows "arr ! nat i \<le> key \<longleftrightarrow> i < int (length (takeWhile (\<lambda>a. key \<ge> a) (arr :: real list)))"
proof -
  from assms(2,3) have "nat i < length arr" by simp
  from sorted_count_le [OF assms(1) this, of key] assms(2) show ?thesis
    by (simp add: nat_less_iff)
qed

lemma bisect_sorted:
  assumes "sorted arr"
    and "0 \<le> imin" and "imin \<le> int (length (takeWhile (\<lambda>a. key \<ge> a) arr))"
    and "int (length (takeWhile (\<lambda>a. key \<ge> a) arr)) \<le> imax" and "imax \<le> int (length arr)"
  shows "bisect key arr imin imax = int (length (takeWhile (\<lambda>a. key \<ge> a) arr)) - 1"
  using assms
proof (induction key arr imin imax rule: bisect.induct)
  case (1 key arr imin imax)
  let ?c = "int (length (takeWhile (\<lambda>a. key \<ge> a) arr))"
  let ?mid = "imin + (imax - imin) div 2"
  show ?case
  proof (cases "imin < imax")
    case False
    with "1.prems" have "imin = ?c" by simp
    with False show ?thesis by (subst bisect.simps) simp
  next
    case True
    then have mid: "imin \<le> ?mid" "?mid < imax" by simp_all
    with "1.prems" have range: "0 \<le> ?mid" "?mid < int (length arr)" by simp_all
    note cnt = sorted_count_int [OF "1.prems"(1) range, of key]
    show ?thesis
    proof (cases "key \<ge> arr ! nat ?mid")
      case ge: True
      with cnt have "?mid + 1 \<le> ?c" by simp
      with "1.IH"(1) [OF True ge "1.prems"(1)] "1.prems" mid True ge show ?thesis
        by (subst bisect.simps) simp
    next
      case lt: False
      with cnt have "?c \<le> ?mid" by simp
      with "1.IH"(2) [OF True lt "1.prems"(1)] "1.prems" mid True lt show ?thesis
        by (subst bisect.simps) simp
    qed
  qed
qed

lemma linear_search_count:
  assumes "arr \<noteq> []" and "hd arr \<le> key"
  shows "linear_search key arr = int (length (takeWhile (\<lambda>a. key \<ge> a) arr)) - 1"
  using assms by (cases arr) (simp_all add: linear_search_def)



lemma binary_search_with_guess_sorted:
  assumes srt: "sorted arr" and ne: "arr \<noteq> []"
  shows "binary_search_with_guess key arr guess0 =
           (if key > last arr then int (length arr)
            else if key < hd arr then - 1 else linear_search key arr)"
proof -
  let ?len = "int (length arr)"
  let ?c = "int (length (takeWhile (\<lambda>a. key \<ge> a) arr))"
  have la: "arr ! nat (?len - 1) = last arr"
    using ne by (simp add: last_conv_nth nat_diff_distrib')
  have hd: "arr ! 0 = hd arr" using ne by (simp add: hd_conv_nth)
  show ?thesis
  proof (cases "key > last arr \<or> key < hd arr \<or> ?len \<le> 4")
    case True
    show ?thesis
    proof (cases "key > last arr")
      case True
      then show ?thesis by (simp add: binary_search_with_guess_def Let_def la)
    next
      case a: False
      show ?thesis
      proof (cases "key < hd arr")
        case True
        with a show ?thesis by (simp add: binary_search_with_guess_def Let_def la hd)
      next
        case False
        with a \<open>key > last arr \<or> key < hd arr \<or> ?len \<le> 4\<close> have "?len \<le> 4" by simp
        with a False show ?thesis by (simp add: binary_search_with_guess_def Let_def la hd)
      qed
    qed
  next
    case False
    then have in_range: "\<not> key > last arr" "\<not> key < hd arr" and len: "4 < ?len" by simp_all
    define guess where
      "guess = (if (if guess0 > ?len - 3 then ?len - 3 else guess0) < 1 then 1
                else (if guess0 > ?len - 3 then ?len - 3 else guess0))"
    have g: "1 \<le> guess" "guess \<le> ?len - 3" using len by (simp_all add: guess_def)
    have cle: "?c \<le> ?len" using length_takeWhile_le [of "\<lambda>a. key \<ge> a" arr] by simp
    have lin: "linear_search key arr = ?c - 1"
      using in_range(2) by (intro linear_search_count [OF ne]) simp
    have cnt: "arr ! nat i \<le> key \<longleftrightarrow> i < ?c" if "0 \<le> i" "i < ?len" for i
      using that by (rule sorted_count_int [OF srt])
    have unfold: "binary_search_with_guess key arr guess0 =
         (if key < arr ! nat guess
          then if key < arr ! nat (guess - 1)
               then bisect key arr
                      (if guess > 8 \<and> key \<ge> arr ! nat (guess - 8) then guess - 8 else 0)
                      (guess - 1)
               else guess - 1
          else if key < arr ! nat (guess + 1) then guess
          else if key < arr ! nat (guess + 2) then guess + 1
          else bisect key arr (guess + 2)
                 (if guess < ?len - 8 - 1 \<and> key < arr ! nat (guess + 8)
                  then guess + 8 else ?len))"
    proof -
      from len have nle: "\<not> ?len \<le> 4" by simp
      from in_range have r: "\<not> last arr < key" "\<not> key < hd arr" by simp_all
      show ?thesis
        unfolding binary_search_with_guess_def Let_def la hd guess_def
        by (simp only: r nle if_False)
    qed
    have "binary_search_with_guess key arr guess0 = ?c - 1"
    proof (cases "key < arr ! nat guess")
      case lt: True
      with cnt [of guess] g have c1: "?c \<le> guess" by simp
      show ?thesis
      proof (cases "key < arr ! nat (guess - 1)")
        case lt': True
        with cnt [of "guess - 1"] g have c2: "?c \<le> guess - 1" by simp
        let ?imin = "if guess > 8 \<and> key \<ge> arr ! nat (guess - 8) then guess - 8 else 0"
        have "0 \<le> ?imin" using g by simp
        moreover have "?imin \<le> ?c"
        proof (cases "guess > 8 \<and> key \<ge> arr ! nat (guess - 8)")
          case True
          with cnt [of "guess - 8"] g have "guess - 8 < ?c" by simp
          moreover from True have "?imin = guess - 8" by (rule if_P)
          ultimately show ?thesis by simp
        next
          case False
          then have "?imin = 0" by (rule if_not_P)
          then show ?thesis by simp
        qed
        moreover have "guess - 1 \<le> ?len" using g by simp
        ultimately have "bisect key arr ?imin (guess - 1) = ?c - 1"
          using c2 by (intro bisect_sorted [OF srt])
        with lt lt' show ?thesis by (simp only: unfold if_True)
      next
        case ge': False
        with cnt [of "guess - 1"] g have "guess - 1 < ?c" by simp
        with c1 have "?c = guess" by simp
        with lt ge' show ?thesis by (simp add: unfold)
      qed
    next
      case ge: False
      with cnt [of guess] g have c1: "guess < ?c" by simp
      show ?thesis
      proof (cases "key < arr ! nat (guess + 1)")
        case lt1: True
        with cnt [of "guess + 1"] g have "?c \<le> guess + 1" by simp
        with c1 have "?c = guess + 1" by simp
        with ge lt1 show ?thesis by (simp add: unfold)
      next
        case ge1: False
        with cnt [of "guess + 1"] g have c2: "guess + 1 < ?c" by simp
        show ?thesis
        proof (cases "key < arr ! nat (guess + 2)")
          case lt2: True
          with cnt [of "guess + 2"] g have "?c \<le> guess + 2" by simp
          with c2 have "?c = guess + 2" by simp
          with ge ge1 lt2 show ?thesis by (simp add: unfold)
        next
          case ge2: False
          with cnt [of "guess + 2"] g have c3: "guess + 2 < ?c" by simp
          let ?imax = "if guess < ?len - 8 - 1 \<and> key < arr ! nat (guess + 8)
                  then guess + 8 else ?len"
          have "?imax \<le> ?len" using g by simp
          moreover have "?c \<le> ?imax"
          proof (cases "guess < ?len - 8 - 1 \<and> key < arr ! nat (guess + 8)")
            case True
            with cnt [of "guess + 8"] g have "?c \<le> guess + 8" by simp
            moreover from True have "?imax = guess + 8" by (rule if_P)
            ultimately show ?thesis by simp
          next
            case False
            then have "?imax = ?len" by (rule if_not_P)
            with cle show ?thesis by simp
          qed
          moreover have "0 \<le> guess + 2" "guess + 2 \<le> ?c" using g c3 by simp_all
          ultimately have "bisect key arr (guess + 2) ?imax = ?c - 1"
            by (intro bisect_sorted [OF srt])
          with ge ge1 ge2 show ?thesis by (simp only: unfold if_True if_False)
        qed
      qed
    qed
    with in_range lin show ?thesis by simp
  qed
qed

lemma interp_loop_sorted:
  assumes "sorted xp" and "xp \<noteq> []" and "length xp \<noteq> 1"
  shows "interp_loop xp fp j xs = map (interp_at xp fp) xs"
proof (induction xs arbitrary: j)
  case Nil
  then show ?case by simp
next
  case (Cons x xs)
  have "interp_value xp fp x (binary_search_with_guess x xp j) = interp_at xp fp x"
    using assms(3)
    by (simp only: binary_search_with_guess_sorted [OF assms(1,2)] interp_at_def if_False)
  with Cons.IH show ?case by simp
qed

lemma np_interp_sorted:
  assumes "sorted xp" and "xp \<noteq> []"
  shows "np_interp x xp fp = map (interp_at xp fp) x"
proof (cases "length xp = 1")
  case True
  then show ?thesis by (simp add: np_interp_def interp_at_def)
next
  case False
  with interp_loop_sorted [OF assms this] show ?thesis by (simp add: np_interp_def)
qed

lemma populate_water_level_rows:
  assumes "sorted (map fst (water_level_staging d))" and "water_level_staging d \<noteq> []"
  shows "populate_water_level d tg S =
           (d\<lparr>water_level := water_level d @
                map (\<lambda>e. (e, interp_at (map (real_of_int \<circ> fst) (water_level_staging d))
                                 (map snd (water_level_staging d)) (real_of_int e)))
                  (butlast tg)\<rparr>,
            Inr ())"
proof -
  have "sorted (map real_of_int (map fst (water_level_staging d)))"
    using assms(1) by (simp add: sorted_iff_nth_mono)
  moreover have "map real_of_int (map fst (water_level_staging d)) \<noteq> []"
    using assms(2) by simp
  ultimately have "np_interp (map real_of_int (butlast tg))
          (map real_of_int (map fst (water_level_staging d))) (map snd (water_level_staging d))
        = map (interp_at (map real_of_int (map fst (water_level_staging d)))
                 (map snd (water_level_staging d))) (map real_of_int (butlast tg))"
    by (rule np_interp_sorted)
  with assms(2) show ?thesis
    by (simp add: populate_water_level_def select_water_level_staging_def Let_def
        zip_map2 zip_same_conv_map comp_def)
qed

lemma water_level_interpolated:
  fixes w :: "(int \<times> real) list"
  assumes srt: "sorted (map fst w)" and ne: "w \<noteq> []"
  defines "zeta \<equiv> \<lambda>e. interp_at (map (real_of_int \<circ> fst) w) (map snd w) (real_of_int e)"
  shows "e < fst (hd w) \<Longrightarrow> zeta e = snd (hd w)"
    and "fst (last w) < e \<Longrightarrow> zeta e = snd (last w)"
    and "e \<in> fst ` set w \<Longrightarrow> (e, zeta e) \<in> set w"
    and "Suc j < length w \<Longrightarrow> fst (w ! j) \<le> e \<Longrightarrow> e < fst (w ! Suc j) \<Longrightarrow>
           zeta e = snd (w ! j) + (snd (w ! Suc j) - snd (w ! j))
                      / (real_of_int (fst (w ! Suc j)) - real_of_int (fst (w ! j)))
                      * (real_of_int e - real_of_int (fst (w ! j)))"
proof -
  let ?xp = "map (real_of_int \<circ> fst) w"
  let ?fp = "map snd w"
  have sx: "sorted ?xp"
    using srt by (simp add: sorted_iff_nth_mono)
  have nx: "?xp \<noteq> []" using ne by simp
  have hd: "hd ?xp = real_of_int (fst (hd w))" "hd ?fp = snd (hd w)"
    using ne by (simp_all add: hd_map)
  have la: "last ?xp = real_of_int (fst (last w))" "last ?fp = snd (last w)"
    using ne by (simp_all add: last_map)
  show "zeta e = snd (hd w)" if "e < fst (hd w)"
    using that interp_at_below [OF sx nx, of "real_of_int e" ?fp] by (simp add: zeta_def hd)
  show "zeta e = snd (last w)" if "fst (last w) < e"
    using that interp_at_above [OF nx, of "real_of_int e" ?fp] by (simp add: zeta_def la)
  show "(e, zeta e) \<in> set w" if "e \<in> fst ` set w"
  proof -
    from that obtain k where k: "k < length w" "fst (w ! k) = e"
      by (auto simp: in_set_conv_nth)
    then have "k < length ?xp" "real_of_int e = ?xp ! k" by simp_all
    from interp_at_knot [OF sx _ this, of ?fp] obtain j
      where j: "j < length ?xp" "?xp ! j = real_of_int e" "zeta e = ?fp ! j"
      by (auto simp: zeta_def)
    then have "fst (w ! j) = e" "zeta e = snd (w ! j)" "j < length w" by simp_all
    then have "w ! j = (e, zeta e)" by (simp add: prod_eq_iff)
    with \<open>j < length w\<close> show ?thesis by (metis nth_mem)
  qed
  show "zeta e = snd (w ! j) + (snd (w ! Suc j) - snd (w ! j))
                      / (real_of_int (fst (w ! Suc j)) - real_of_int (fst (w ! j)))
                      * (real_of_int e - real_of_int (fst (w ! j)))"
    if "Suc j < length w" "fst (w ! j) \<le> e" "e < fst (w ! Suc j)"
  proof -
    from that have "Suc j < length ?xp" "?xp ! j \<le> real_of_int e" "real_of_int e < ?xp ! Suc j"
      by simp_all
    from interp_at_between [OF sx this, of ?fp] that(1) show ?thesis
      by (simp add: zeta_def)
  qed
qed

text \<open>The Grid Builder in 64-bit arithmetic agrees with the exact one on bounded epochs.\<close>

lemma int64_id: "fits_int64 z \<Longrightarrow> int64 z = z"
  by (simp add: int64_def fits_int64_def)

lemma np_diff_int64_eq:
  assumes "\<forall>e \<in> set xs. - (2 ^ 61) \<le> e \<and> e \<le> 2 ^ 61"
  shows "np_diff_int64 xs = np_diff xs"
  using assms
proof (induction xs rule: np_diff.induct)
  case (1 x y xs)
  then have "fits_int64 (y - x)" by (simp add: fits_int64_def)
  with 1 show ?case by (simp add: int64_id)
qed simp_all

lemma np_diff_bounded:
  assumes "\<forall>e \<in> set xs. - (2 ^ 61) \<le> e \<and> e \<le> 2 ^ 61" and "s \<in> set (np_diff xs)"
  shows "- (2 ^ 62) \<le> s \<and> s \<le> 2 ^ 62"
  using assms
proof (induction xs rule: np_diff.induct)
  case (1 x y xs)
  then show ?case by auto
qed simp_all

lemma populate_grid_time_int64_eq:
  assumes "\<forall>e \<in> set (select_time_grid d). - (2 ^ 61) \<le> e \<and> e \<le> 2 ^ 61"
  shows "populate_grid_time_int64 d = populate_grid_time d"
proof (cases "length (sort (remdups (np_diff (select_time_grid d)))) = 1")
  case False
  then show ?thesis
    by (simp add: populate_grid_time_int64_def populate_grid_time_def np_diff_int64_eq [OF assms]
        Let_def)
next
  case True
  let ?tg = "select_time_grid d"
  let ?S = "hd (sort (remdups (np_diff ?tg)))"
  from True have "set (np_diff ?tg) = {?S}" by (simp only: delta_t_singleton)
  then have "?S \<in> set (np_diff ?tg)" by simp
  from np_diff_bounded [OF assms this] have S: "- (2 ^ 62) \<le> ?S \<and> ?S \<le> 2 ^ 62" .
  show ?thesis
  proof (cases "index_from_end ?tg 1")
    case (Inl e)
    with True show ?thesis
      by (simp add: populate_grid_time_int64_def populate_grid_time_def
          np_diff_int64_eq [OF assms] Let_def)
  next
    case (Inr final)
    then have "final \<in> set ?tg"
      by (auto simp: index_from_end_def split: if_splits)
    with assms have "- (2 ^ 61) \<le> final \<and> final \<le> 2 ^ 61" by blast
    with S have "fits_int64 (final + ?S)" by (simp add: fits_int64_def)
    with True Inr show ?thesis
      by (simp add: populate_grid_time_int64_def populate_grid_time_def
          np_diff_int64_eq [OF assms] Let_def)
  qed
qed

text \<open>
  What the matchers of \<^verbatim>\<open>strptime\<close> consume: every text that is accepted consists of
  digits, hyphens, colons and whitespace only.
\<close>

lemma is_digit_value: "is_digit c \<Longrightarrow> digit_value c \<le> 9"
  by (auto simp: is_digit_def digit_value_def)

lemma digits2_Some:
  assumes "digits2 ok s = Some (v, r)"
  shows "\<exists>a b. s = a # b # r \<and> is_digit a \<and> is_digit b \<and> ok (digit_value a) (digit_value b)
           \<and> v = 10 * digit_value a + digit_value b"
  using assms by (auto simp: digits2_def split: list.splits if_splits)

lemma digit1_Some:
  assumes "digit1 ok s = Some (v, r)"
  shows "\<exists>a. s = a # r \<and> is_digit a \<and> ok (digit_value a) \<and> v = digit_value a"
  using assms by (auto simp: digit1_def split: list.splits if_splits)

lemma alt_Some: "alt p q s = Some x \<Longrightarrow> p s = Some x \<or> q s = Some x"
  by (auto simp: alt_def split: option.splits)

lemma literal_Some: "literal c s = Some r \<Longrightarrow> s = c # r"
  by (auto simp: literal_def split: list.splits if_splits)

lemma whitespace_Some:
  assumes "whitespace s = Some r"
  shows "\<exists>pre. s = pre @ r \<and> (\<forall>c \<in> set pre. is_space c)"
proof -
  from assms obtain a rest where s: "s = a # rest" "is_space a" "r = dropWhile is_space rest"
    by (auto simp: whitespace_def split: list.splits if_splits)
  then have "s = (a # takeWhile is_space rest) @ r" by simp
  moreover have "\<forall>c \<in> set (a # takeWhile is_space rest). is_space c"
    using s(2) by (auto dest: set_takeWhileD)
  ultimately show ?thesis by blast
qed

lemma re_Y_Some:
  assumes "re_Y s = Some (v, r)"
  shows "\<exists>pre. s = pre @ r \<and> (\<forall>c \<in> set pre. format_char c)"
proof -
  from assms obtain a b c d where "s = [a, b, c, d] @ r"
    "is_digit a" "is_digit b" "is_digit c" "is_digit d"
    by (auto simp: re_Y_def split: list.splits if_splits)
  then show ?thesis by (intro exI [of _ "[a, b, c, d]"]) (simp add: format_char_def)
qed

lemma digits2_format:
  assumes "digits2 ok s = Some (v, r)"
  shows "\<exists>pre. s = pre @ r \<and> (\<forall>c \<in> set pre. format_char c)"
proof -
  from digits2_Some [OF assms] obtain a b where "s = [a, b] @ r" "is_digit a" "is_digit b"
    by auto
  then show ?thesis by (intro exI [of _ "[a, b]"]) (simp add: format_char_def)
qed

lemma digit1_format:
  assumes "digit1 ok s = Some (v, r)"
  shows "\<exists>pre. s = pre @ r \<and> (\<forall>c \<in> set pre. format_char c)"
proof -
  from digit1_Some [OF assms] obtain a where "s = [a] @ r" "is_digit a" by auto
  then show ?thesis by (intro exI [of _ "[a]"]) (simp add: format_char_def)
qed

lemma re_m_Some:
  assumes "re_m s = Some (v, r)"
  shows "\<exists>pre. s = pre @ r \<and> (\<forall>c \<in> set pre. format_char c)"
  using assms unfolding re_m_def
  by (auto dest!: alt_Some dest: digits2_format digit1_format)

lemma re_d_Some:
  assumes "re_d s = Some (v, r)"
  shows "\<exists>pre. s = pre @ r \<and> (\<forall>c \<in> set pre. format_char c)"
proof -
  from assms consider ok where "digits2 ok s = Some (v, r)" | ok where "digit1 ok s = Some (v, r)"
    | "Option.bind (literal CHR '' '' s) (digit1 (\<lambda>a. 1 \<le> a)) = Some (v, r)"
    unfolding re_d_def by (auto dest!: alt_Some)
  then show ?thesis
  proof cases
    case 1
    then show ?thesis by (rule digits2_format)
  next
    case 2
    then show ?thesis by (rule digit1_format)
  next
    case 3
    then obtain s' where "s = CHR '' '' # s'" "digit1 (\<lambda>a. 1 \<le> a) s' = Some (v, r)"
      by (auto simp: bind_eq_Some_conv dest: literal_Some)
    with digit1_Some [of _ s' v r] obtain a where "s = [CHR '' '', a] @ r" "is_digit a" by auto
    then show ?thesis
      by (intro exI [of _ "[CHR '' '', a]"]) (simp add: format_char_def is_space_def)
  qed
qed

lemma re_H_Some:
  assumes "re_H s = Some (v, r)"
  shows "\<exists>pre. s = pre @ r \<and> (\<forall>c \<in> set pre. format_char c)"
  using assms unfolding re_H_def
  by (auto dest!: alt_Some dest: digits2_format digit1_format)

lemma re_M_Some:
  assumes "re_M s = Some (v, r)"
  shows "\<exists>pre. s = pre @ r \<and> (\<forall>c \<in> set pre. format_char c)"
  using assms unfolding re_M_def
  by (auto dest!: alt_Some dest: digits2_format digit1_format)

lemma re_S_Some:
  assumes "re_S s = Some (v, r)"
  shows "\<exists>pre. s = pre @ r \<and> (\<forall>c \<in> set pre. format_char c)"
  using assms unfolding re_S_def
  by (auto dest!: alt_Some dest: digits2_format digit1_format)

lemma literal_format:
  assumes "literal c s = Some r" and "format_char c"
  shows "\<exists>pre. s = pre @ r \<and> (\<forall>c \<in> set pre. format_char c)"
  using literal_Some [OF assms(1)] assms(2) by (intro exI [of _ "[c]"]) simp

lemma whitespace_format:
  assumes "whitespace s = Some r"
  shows "\<exists>pre. s = pre @ r \<and> (\<forall>c \<in> set pre. format_char c)"
  using whitespace_Some [OF assms] by (auto simp: format_char_def)


lemma strptime_format_chars:
  assumes "strptime stamp = Some dt"
  shows "\<forall>c \<in> set stamp. format_char c"
proof -
  have hy: "format_char CHR ''-''" and co: "format_char CHR '':''"
    by (simp_all add: format_char_def)
  from assms obtain y s1 where a1: "re_Y stamp = Some (y, s1)"
    and r1: "Option.bind (literal CHR ''-'' s1) (\<lambda>s.
     Option.bind (re_m s) (\<lambda>(m, s).
     Option.bind (literal CHR ''-'' s) (\<lambda>s.
     Option.bind (re_d s) (\<lambda>(d, s).
     Option.bind (whitespace s) (\<lambda>s.
     Option.bind (re_H s) (\<lambda>(H, s).
     Option.bind (literal CHR '':'' s) (\<lambda>s.
     Option.bind (re_M s) (\<lambda>(M, s).
     Option.bind (literal CHR '':'' s) (\<lambda>s.
     Option.bind (re_S s) (\<lambda>(S, s).
       if s \<noteq> [] then None
       else if y < 1 \<or> days_in_month y m < d \<or> 59 < S then None
       else Some \<lparr>year = y, month = m, day = d, hour = H, minute = M, second = S\<rparr>
     )))))))))) = Some dt"
    unfolding strptime_def by (auto simp: bind_eq_Some_conv)
  from r1 obtain s2 where a2: "literal CHR ''-'' s1 = Some s2"
    and r2: "Option.bind (re_m s2) (\<lambda>(m, s).
     Option.bind (literal CHR ''-'' s) (\<lambda>s.
     Option.bind (re_d s) (\<lambda>(d, s).
     Option.bind (whitespace s) (\<lambda>s.
     Option.bind (re_H s) (\<lambda>(H, s).
     Option.bind (literal CHR '':'' s) (\<lambda>s.
     Option.bind (re_M s) (\<lambda>(M, s).
     Option.bind (literal CHR '':'' s) (\<lambda>s.
     Option.bind (re_S s) (\<lambda>(S, s).
       if s \<noteq> [] then None
       else if y < 1 \<or> days_in_month y m < d \<or> 59 < S then None
       else Some \<lparr>year = y, month = m, day = d, hour = H, minute = M, second = S\<rparr>
     ))))))))) = Some dt"
    by (auto simp: bind_eq_Some_conv)
  from r2 obtain m s3 where a3: "re_m s2 = Some (m, s3)"
    and r3: "Option.bind (literal CHR ''-'' s3) (\<lambda>s.
     Option.bind (re_d s) (\<lambda>(d, s).
     Option.bind (whitespace s) (\<lambda>s.
     Option.bind (re_H s) (\<lambda>(H, s).
     Option.bind (literal CHR '':'' s) (\<lambda>s.
     Option.bind (re_M s) (\<lambda>(M, s).
     Option.bind (literal CHR '':'' s) (\<lambda>s.
     Option.bind (re_S s) (\<lambda>(S, s).
       if s \<noteq> [] then None
       else if y < 1 \<or> days_in_month y m < d \<or> 59 < S then None
       else Some \<lparr>year = y, month = m, day = d, hour = H, minute = M, second = S\<rparr>
     )))))))) = Some dt"
    by (auto simp: bind_eq_Some_conv)
  from r3 obtain s4 where a4: "literal CHR ''-'' s3 = Some s4"
    and r4: "Option.bind (re_d s4) (\<lambda>(d, s).
     Option.bind (whitespace s) (\<lambda>s.
     Option.bind (re_H s) (\<lambda>(H, s).
     Option.bind (literal CHR '':'' s) (\<lambda>s.
     Option.bind (re_M s) (\<lambda>(M, s).
     Option.bind (literal CHR '':'' s) (\<lambda>s.
     Option.bind (re_S s) (\<lambda>(S, s).
       if s \<noteq> [] then None
       else if y < 1 \<or> days_in_month y m < d \<or> 59 < S then None
       else Some \<lparr>year = y, month = m, day = d, hour = H, minute = M, second = S\<rparr>
     ))))))) = Some dt"
    by (auto simp: bind_eq_Some_conv)
  from r4 obtain d s5 where a5: "re_d s4 = Some (d, s5)"
    and r5: "Option.bind (whitespace s5) (\<lambda>s.
     Option.bind (re_H s) (\<lambda>(H, s).
     Option.bind (literal CHR '':'' s) (\<lambda>s.
     Option.bind (re_M s) (\<lambda>(M, s).
     Option.bind (literal CHR '':'' s) (\<lambda>s.
     Option.bind (re_S s) (\<lambda>(S, s).
       if s \<noteq> [] then None
       else if y < 1 \<or> days_in_month y m < d \<or> 59 < S then None
       else Some \<lparr>year = y, month = m, day = d, hour = H, minute = M, second = S\<rparr>
     )))))) = Some dt"
    by (auto simp: bind_eq_Some_conv)
  from r5 obtain s6 where a6: "whitespace s5 = Some s6"
    and r6: "Option.bind (re_H s6) (\<lambda>(H, s).
     Option.bind (literal CHR '':'' s) (\<lambda>s.
     Option.bind (re_M s) (\<lambda>(M, s).
     Option.bind (literal CHR '':'' s) (\<lambda>s.
     Option.bind (re_S s) (\<lambda>(S, s).
       if s \<noteq> [] then None
       else if y < 1 \<or> days_in_month y m < d \<or> 59 < S then None
       else Some \<lparr>year = y, month = m, day = d, hour = H, minute = M, second = S\<rparr>
     ))))) = Some dt"
    by (auto simp: bind_eq_Some_conv)
  from r6 obtain H s7 where a7: "re_H s6 = Some (H, s7)"
    and r7: "Option.bind (literal CHR '':'' s7) (\<lambda>s.
     Option.bind (re_M s) (\<lambda>(M, s).
     Option.bind (literal CHR '':'' s) (\<lambda>s.
     Option.bind (re_S s) (\<lambda>(S, s).
       if s \<noteq> [] then None
       else if y < 1 \<or> days_in_month y m < d \<or> 59 < S then None
       else Some \<lparr>year = y, month = m, day = d, hour = H, minute = M, second = S\<rparr>
     )))) = Some dt"
    by (auto simp: bind_eq_Some_conv)
  from r7 obtain s8 where a8: "literal CHR '':'' s7 = Some s8"
    and r8: "Option.bind (re_M s8) (\<lambda>(M, s).
     Option.bind (literal CHR '':'' s) (\<lambda>s.
     Option.bind (re_S s) (\<lambda>(S, s).
       if s \<noteq> [] then None
       else if y < 1 \<or> days_in_month y m < d \<or> 59 < S then None
       else Some \<lparr>year = y, month = m, day = d, hour = H, minute = M, second = S\<rparr>
     ))) = Some dt"
    by (auto simp: bind_eq_Some_conv)
  from r8 obtain M s9 where a9: "re_M s8 = Some (M, s9)"
    and r9: "Option.bind (literal CHR '':'' s9) (\<lambda>s.
     Option.bind (re_S s) (\<lambda>(S, s).
       if s \<noteq> [] then None
       else if y < 1 \<or> days_in_month y m < d \<or> 59 < S then None
       else Some \<lparr>year = y, month = m, day = d, hour = H, minute = M, second = S\<rparr>
     )) = Some dt"
    by (auto simp: bind_eq_Some_conv)
  from r9 obtain s10 S s11 where a10: "literal CHR '':'' s9 = Some s10"
    and a11: "re_S s10 = Some (S, s11)" and e: "s11 = []"
    by (auto simp: bind_eq_Some_conv split: if_splits)
  from re_Y_Some [OF a1] literal_format [OF a2 hy] re_m_Some [OF a3] literal_format [OF a4 hy]
    re_d_Some [OF a5] whitespace_format [OF a6] re_H_Some [OF a7] literal_format [OF a8 co]
    re_M_Some [OF a9] literal_format [OF a10 co] re_S_Some [OF a11] e
  show ?thesis by auto
qed

lemma strptime_rejects:
  assumes "c \<in> set stamp" and "\<not> format_char c"
  shows "strptime stamp = None"
proof (cases "strptime stamp")
  case None
  then show ?thesis .
next
  case (Some dt)
  from strptime_format_chars [OF Some] assms show ?thesis by blast
qed

section \<open>Scenario A\<close>

text \<open>
  C1. Rainfall staged at epochs 0, 3600, 7200 with intensities 0, 5, 10 and water level
  staged at epochs -1800 and 9000 (any two levels): the Grid Builder returns the grid
  [0, 3600, 7200, 10800] with step 3600 and stores both, and rainfall binning then stores
  exactly the intervals (0,3600,0), (3600,7200,5), (7200,10800,10); the whole run
  succeeds with these tables.
\<close>

theorem scenario_A_grid_and_rainfall:
  "snd (populate_grid_time (staged [(0, 0), (3600, 5), (7200, 10)] [(- 1800, w1), (9000, w2)]))
     = Inr ([0, 3600, 7200, 10800], 3600)
   \<and> snd (load_data [(0, 0), (3600, 5), (7200, 10)] [(- 1800, w1), (9000, w2)]) = Inr ()
   \<and> grid_time (fst (load_data [(0, 0), (3600, 5), (7200, 10)] [(- 1800, w1), (9000, w2)]))
     = [0, 3600, 7200, 10800]
   \<and> time_grid_table (fst (load_data [(0, 0), (3600, 5), (7200, 10)] [(- 1800, w1), (9000, w2)]))
     = [3600]
   \<and> rainfall_intensity (fst (load_data [(0, 0), (3600, 5), (7200, 10)] [(- 1800, w1), (9000, w2)]))
     = [(0, 3600, 0), (3600, 7200, 5), (7200, 10800, 10)]"
  by (simp add: load_data_def populate_grid_time_def populate_rainfall_intensity_def
      select_rainfall_intervals_def populate_water_level_def select_water_level_staging_def select_time_grid_def
      staged_def insert_water_level_staging_def insert_rainfall_intensity_staging_def
      empty_db_def sql_min_def sql_max_def index_from_end_def Let_def)

section \<open>Grid Builder\<close>

text \<open>
  C2. Whenever the consecutive differences of the candidate grid (the epochs selected by
  the query of \<^verbatim>\<open>populate_grid_time\<close>) take more than one value, the Grid Builder raises
  the nonuniform-time-step error carrying exactly the set of differences (as its sorted
  list), the store is left as it was (no step and no grid is stored), and the whole run
  ends with that error. In particular, rainfall staged at epochs 0, 3600, 10800, all
  within the water-level window, fails with the differences 3600 and 7200.
\<close>

theorem nonuniform_time_steps_fail:
  "(1 < card (set (np_diff (select_time_grid d))) \<longrightarrow>
      populate_grid_time d =
        (d, Inl (ValueError_nonuniform_time_steps
                   (sorted_list_of_set (set (np_diff (select_time_grid d)))))))
   \<and> (1 < card (set (np_diff (select_time_grid (staged rain water)))) \<longrightarrow>
      load_data rain water =
        (staged rain water,
         Inl (ValueError_nonuniform_time_steps
                (sorted_list_of_set (set (np_diff (select_time_grid (staged rain water))))))))
   \<and> ((lo, a) \<in> set water \<and> lo \<le> 0 \<and> (hi, b) \<in> set water \<and> 10800 \<le> hi \<longrightarrow>
      populate_grid_time (staged [(0, r0), (3600, r1), (10800, r2)] water) =
        (staged [(0, r0), (3600, r1), (10800, r2)] water,
         Inl (ValueError_nonuniform_time_steps [3600, 7200])))"
proof (intro conjI impI)
  have gen: "populate_grid_time d' =
        (d', Inl (ValueError_nonuniform_time_steps
                   (sorted_list_of_set (set (np_diff (select_time_grid d'))))))"
    if "1 < card (set (np_diff (select_time_grid d')))" for d'
  proof -
    have "length (sort (remdups (np_diff (select_time_grid d'))))
            = card (set (np_diff (select_time_grid d')))"
      by (simp add: length_remdups_card_conv)
    with that have "length (sort (remdups (np_diff (select_time_grid d')))) \<noteq> 1" by simp
    then show ?thesis
      by (simp add: populate_grid_time_Inl sorted_list_of_set_sort_remdups)
  qed
  {
    assume "1 < card (set (np_diff (select_time_grid d)))"
    then show "populate_grid_time d =
        (d, Inl (ValueError_nonuniform_time_steps
                   (sorted_list_of_set (set (np_diff (select_time_grid d))))))"
      by (rule gen)
  }
  {
    assume "1 < card (set (np_diff (select_time_grid (staged rain water))))"
    then show "load_data rain water =
        (staged rain water,
         Inl (ValueError_nonuniform_time_steps
                (sorted_list_of_set (set (np_diff (select_time_grid (staged rain water)))))))"
      by (intro load_data_Inl gen)
  }
  {
    let ?rain = "[(0, r0), (3600, r1), (10800, r2)]"
    assume h: "(lo, a) \<in> set water \<and> lo \<le> 0 \<and> (hi, b) \<in> set water \<and> 10800 \<le> hi"
    then have ne: "water \<noteq> []" by auto
    from h have "lo \<in> fst ` set water" "hi \<in> fst ` set water" by force+
    then have "Min (fst ` set water) \<le> lo" "hi \<le> Max (fst ` set water)" by simp_all
    with h have w: "Min (fst ` set water) \<le> 0" "10800 \<le> Max (fst ` set water)" by linarith+
    then have "select_time_grid (staged ?rain water) = [0, 3600, 10800]"
      using ne by (simp add: select_time_grid_eq staged_simps)
    then show "populate_grid_time (staged ?rain water) =
        (staged ?rain water, Inl (ValueError_nonuniform_time_steps [3600, 7200]))"
      by (simp add: populate_grid_time_def Let_def)
  }
qed

theorem nonuniform_time_steps_fail_witness:
  "1 < card (set (np_diff (select_time_grid
         (staged [(0, 1), (7200, 2), (10800, 3)] [(- 1800, 5), (12600, 6)]))))
   \<and> load_data [(0, 1), (7200, 2), (10800, 3)] [(- 1800, 5), (12600, 6)] =
       (staged [(0, 1), (7200, 2), (10800, 3)] [(- 1800, 5), (12600, 6)],
        Inl (ValueError_nonuniform_time_steps [3600, 7200]))
   \<and> populate_grid_time (staged [(0, 1), (3600, 2), (10800, 3)] [(- 1800, 5), (12600, 6)]) =
       (staged [(0, 1), (3600, 2), (10800, 3)] [(- 1800, 5), (12600, 6)],
        Inl (ValueError_nonuniform_time_steps [3600, 7200]))"
proof -
  let ?d = "staged [(0, 1), (7200, 2), (10800, 3)] [(- 1800, 5), (12600, 6)]"
  have tg: "select_time_grid ?d = [0, 7200, 10800]"
    by (simp add: select_time_grid_eq staged_simps)
  have c: "1 < card (set (np_diff (select_time_grid ?d)))"
    by (simp add: tg)
  have s: "sorted_list_of_set (set (np_diff (select_time_grid ?d))) = [3600, 7200]"
    by (simp add: tg sorted_list_of_set_sort_remdups)
  have h: "(- 1800, 5) \<in> set [(- 1800, 5), (12600, 6::real)] \<and> (- 1800 :: int) \<le> 0
            \<and> (12600, 6) \<in> set [(- 1800, 5), (12600, 6::real)] \<and> (10800::int) \<le> 12600"
    by simp
  from nonuniform_time_steps_fail
         [where d = ?d and rain = "[(0, 1), (7200, 2), (10800, 3)]"
            and water = "[(- 1800, 5), (12600, 6)]" and lo = "- 1800" and a = 5
            and hi = 12600 and b = 6 and ?r0.0 = 1 and ?r1.0 = 2 and ?r2.0 = 3]
       c h s
  show ?thesis by simp
qed


text \<open>
  C10. When the candidate grid is empty or holds a single epoch, it has no consecutive
  differences, so the Grid Builder raises the same error as for nonuniform time steps,
  carrying the empty list of differences; the run ends there with the store as staged:
  no step, no grid, no rainfall interval and no water level is stored. The error type
  has no separate case for an empty overlap.
\<close>

theorem short_candidate_grid_fails:
  assumes "length (select_time_grid (staged rain water)) \<le> 1"
  shows "np_diff (select_time_grid (staged rain water)) = []
       \<and> populate_grid_time (staged rain water) =
           (staged rain water, Inl (ValueError_nonuniform_time_steps []))
       \<and> load_data rain water = (staged rain water, Inl (ValueError_nonuniform_time_steps []))
       \<and> time_grid_table (fst (load_data rain water)) = []
       \<and> grid_time (fst (load_data rain water)) = []
       \<and> rainfall_intensity (fst (load_data rain water)) = []
       \<and> water_level (fst (load_data rain water)) = []"
proof -
  from assms have "length (np_diff (select_time_grid (staged rain water))) = 0"
    by (simp add: length_np_diff)
  then have e: "np_diff (select_time_grid (staged rain water)) = []" by simp
  then have p: "populate_grid_time (staged rain water) =
           (staged rain water, Inl (ValueError_nonuniform_time_steps []))"
    by (simp add: populate_grid_time_def Let_def)
  then have l: "load_data rain water =
           (staged rain water, Inl (ValueError_nonuniform_time_steps []))"
    by (rule load_data_Inl)
  from e p l show ?thesis by (simp add: staged_simps)
qed

theorem short_candidate_grid_fails_witness:
  "length (select_time_grid (staged [(0, 4)] [(- 1800, 1), (9000, 2)])) \<le> 1
   \<and> length (select_time_grid (staged [(0, 4), (3600, 5)] [])) \<le> 1
   \<and> load_data [(0, 4)] [(- 1800, 1), (9000, 2)] =
       (staged [(0, 4)] [(- 1800, 1), (9000, 2)], Inl (ValueError_nonuniform_time_steps []))
   \<and> load_data [(0, 4), (3600, 5)] [] =
       (staged [(0, 4), (3600, 5)] [], Inl (ValueError_nonuniform_time_steps []))"
proof -
  have a: "length (select_time_grid (staged [(0, 4)] [(- 1800, 1), (9000, 2)])) \<le> 1"
    by (simp add: select_time_grid_eq staged_simps)
  have b: "length (select_time_grid (staged [(0, 4), (3600, 5)] [])) \<le> 1"
    by (simp add: select_time_grid_eq staged_simps)
  from a b short_candidate_grid_fails [OF a] short_candidate_grid_fails [OF b]
  show ?thesis by simp
qed


text \<open>
  C3. When the Grid Builder succeeds with step \<open>S\<close> on staged rainfall and water-level
  series, the water-level series is not empty, the epochs its query selects are the
  candidate grid of the spec (the rainfall epochs between the least and the greatest
  water-level epoch, sorted ascending), the returned grid is that candidate grid with
  the one point \<open>last + S\<close> appended, its length is one more than the number of rainfall
  samples within the window, and the stored grid and step are the returned ones.
\<close>

theorem grid_is_closed_candidate_grid:
  assumes "populate_grid_time (staged rain water) = (d', Inr (grid, S))"
  shows "water \<noteq> []
       \<and> select_time_grid (staged rain water) = candidate_grid rain water
       \<and> grid = candidate_grid rain water @ [last (candidate_grid rain water) + S]
       \<and> length grid =
           length (filter (\<lambda>(e, v). Min (fst ` set water) \<le> e \<and> e \<le> Max (fst ` set water))
                     rain) + 1
       \<and> grid_time d' = grid \<and> time_grid_table d' = [S]"
proof -
  note r = populate_grid_time_Inr [OF assms]
  from r(2) have ne: "water \<noteq> []"
    by (auto simp: select_time_grid_eq staged_simps)
  then have c: "select_time_grid (staged rain water) = candidate_grid rain water"
    by (rule select_time_grid_candidate)
  have "length (candidate_grid rain water) =
          length (filter (\<lambda>(e, v). Min (fst ` set water) \<le> e \<and> e \<le> Max (fst ` set water)) rain)"
    by (simp add: candidate_grid_def filter_map comp_def case_prod_unfold)
  with ne c r(3) r(4) show ?thesis by (simp add: staged_simps)
qed


theorem grid_is_closed_candidate_grid_witness:
  "populate_grid_time (staged [(- 3600, 1), (0, 0), (7200, 10), (3600, 5), (10800, 2)]
                          [(9000, 4), (- 1800, 3)])
     = ((staged [(- 3600, 1), (0, 0), (7200, 10), (3600, 5), (10800, 2)] [(9000, 4), (- 1800, 3)])
          \<lparr>time_grid_table := [3600], grid_time := [0, 3600, 7200, 10800]\<rparr>,
        Inr ([0, 3600, 7200, 10800], 3600))
   \<and> candidate_grid [(- 3600, 1), (0, 0), (7200, 10), (3600, 5), (10800, 2)]
        [(9000, 4), (- 1800, 3)] = [0, 3600, 7200]
   \<and> length (filter (\<lambda>(e, v). Min (fst ` set [(9000 :: int, 4 :: real), (- 1800, 3)]) \<le> e
                              \<and> e \<le> Max (fst ` set [(9000 :: int, 4 :: real), (- 1800, 3)]))
                 [(- 3600, 1 :: real), (0, 0), (7200, 10), (3600, 5), (10800, 2)]) = 3"
proof -
  let ?rain = "[(- 3600, 1), (0, 0), (7200, 10), (3600, 5), (10800, 2)] :: (int \<times> real) list"
  let ?water = "[(9000, 4), (- 1800, 3)] :: (int \<times> real) list"
  have tg: "select_time_grid (staged ?rain ?water) = [0, 3600, 7200]"
    by (simp add: select_time_grid_def sql_min_def sql_max_def staged_simps)
  have p: "populate_grid_time (staged ?rain ?water)
     = ((staged ?rain ?water)\<lparr>time_grid_table := [3600], grid_time := [0, 3600, 7200, 10800]\<rparr>,
        Inr ([0, 3600, 7200, 10800], 3600))"
    by (simp add: populate_grid_time_def tg staged_simps index_from_end_def Let_def)
  have "candidate_grid ?rain ?water = [0, 3600, 7200]"
    using grid_is_closed_candidate_grid [OF p] tg by simp
  moreover have "length (filter (\<lambda>(e, v). Min (fst ` set ?water) \<le> e \<and> e \<le> Max (fst ` set ?water))
                 ?rain) = 3"
    using grid_is_closed_candidate_grid [OF p] by simp
  ultimately show ?thesis using p by simp
qed


text \<open>
  C6, as stated, fails. Two rainfall samples staged at the same epoch 0 (the store takes
  duplicates) with a water-level sample at epoch 0 give the grid [0, 0, 0] with step 0,
  which is neither strictly increasing nor positive. And at the ends of the 64-bit range
  the difference wraps around: rainfall at the least and at the greatest 64-bit epoch
  gives step -1 and a grid that goes down at its end.
\<close>

theorem duplicate_epochs_give_step_zero:
  "populate_grid_time_int64 (staged [(0, 0), (0, 5)] [(0, 1)])
     = ((staged [(0, 0), (0, 5)] [(0, 1)])\<lparr>time_grid_table := [0], grid_time := [0, 0, 0]\<rparr>,
        Inr ([0, 0, 0], 0))
   \<and> populate_grid_time (staged [(0, 0), (0, 5)] [(0, 1)])
     = ((staged [(0, 0), (0, 5)] [(0, 1)])\<lparr>time_grid_table := [0], grid_time := [0, 0, 0]\<rparr>,
        Inr ([0, 0, 0], 0))
   \<and> \<not> sorted_wrt (<) [0, 0, 0 :: int] \<and> \<not> (0 :: int) < 0
   \<and> snd (populate_grid_time_int64
         (staged [(- 9223372036854775808, 0), (9223372036854775807, 5)]
            [(- 9223372036854775808, 1), (9223372036854775807, 2)]))
     = Inr ([- 9223372036854775808, 9223372036854775807, 9223372036854775806], - 1)"
proof -
  have tg: "select_time_grid (staged [(0, 0), (0, 5)] [(0, 1)]) = [0, 0]"
    by (simp add: select_time_grid_def sql_min_def sql_max_def staged_simps)
  have a: "populate_grid_time (staged [(0, 0), (0, 5)] [(0, 1)])
     = ((staged [(0, 0), (0, 5)] [(0, 1)])\<lparr>time_grid_table := [0], grid_time := [0, 0, 0]\<rparr>,
        Inr ([0, 0, 0], 0))"
    by (simp add: populate_grid_time_def tg staged_simps index_from_end_def Let_def)
  have b: "populate_grid_time_int64 (staged [(0, 0), (0, 5)] [(0, 1)])
     = ((staged [(0, 0), (0, 5)] [(0, 1)])\<lparr>time_grid_table := [0], grid_time := [0, 0, 0]\<rparr>,
        Inr ([0, 0, 0], 0))"
    by (simp add: populate_grid_time_int64_def tg staged_simps index_from_end_def Let_def
        int64_def fits_int64_def)
  have tg': "select_time_grid (staged [(- 9223372036854775808, 0), (9223372036854775807, 5)]
                [(- 9223372036854775808, 1), (9223372036854775807, 2)])
              = [- 9223372036854775808, 9223372036854775807]"
    by (simp add: select_time_grid_def sql_min_def sql_max_def staged_simps)
  have c: "snd (populate_grid_time_int64
         (staged [(- 9223372036854775808, 0), (9223372036854775807, 5)]
            [(- 9223372036854775808, 1), (9223372036854775807, 2)]))
     = Inr ([- 9223372036854775808, 9223372036854775807, 9223372036854775806], - 1)"
    by (simp add: populate_grid_time_int64_def tg' index_from_end_def Let_def
        int64_def fits_int64_def)
  from a b c show ?thesis by simp
qed

text \<open>
  C6, amended. For every store whose selected rainfall epochs lie between \<open>- 2\<^sup>6\<^sup>1\<close> and
  \<open>2\<^sup>6\<^sup>1\<close> (all epochs of the Timestamp Normalizer do), and every grid the Grid Builder
  returns on it in 64-bit arithmetic: the exact function returns the same, the epochs
  are non-decreasing, the step is a single non-negative integer and every consecutive
  difference equals it. The epochs are strictly increasing exactly when the step is
  positive, and the step is positive exactly when no two selected rainfall epochs
  coincide.
\<close>

theorem grid_uniform_nondecreasing:
  assumes run: "populate_grid_time_int64 d = (d', Inr (grid, S))"
    and bound: "\<forall>e \<in> set (select_time_grid d). - (2 ^ 61) \<le> e \<and> e \<le> 2 ^ 61"
  shows "populate_grid_time d = (d', Inr (grid, S))
       \<and> sorted grid \<and> 0 \<le> S
       \<and> (\<forall>i. Suc i < length grid \<longrightarrow> grid ! Suc i - grid ! i = S)
       \<and> (sorted_wrt (<) grid \<longleftrightarrow> 0 < S)
       \<and> (0 < S \<longleftrightarrow> distinct (select_time_grid d))"
proof -
  have assms: "populate_grid_time d = (d', Inr (grid, S))"
    using run by (simp add: populate_grid_time_int64_eq [OF bound])
  let ?tg = "select_time_grid d"
  note r = populate_grid_time_Inr [OF assms]
  note u = populate_grid_time_uniform [OF assms]
  note n = populate_grid_time_step_nonneg [OF assms]
  from r(2) have "Suc 0 < length ?tg + 1" by linarith
  also have "length ?tg + 1 = length grid" by (subst r(3)) simp
  finally have len: "Suc 0 < length grid" .
  have s: "sorted grid" using u n by (simp add: sorted_iff_nth_Suc)
  have strict: "sorted_wrt (<) grid \<longleftrightarrow> 0 < S"
  proof
    assume "sorted_wrt (<) grid"
    then have "grid ! 0 < grid ! Suc 0" using len by (simp add: sorted_wrt_iff_nth_less)
    with u len show "0 < S" by simp
  next
    assume "0 < S"
    with u show "sorted_wrt (<) grid" by (simp add: sorted_wrt_iff_nth_Suc_transp)
  qed
  have tgu: "\<forall>i. Suc i < length ?tg \<longrightarrow> ?tg ! Suc i = ?tg ! i + S"
    using r(1) by (simp add: np_diff_uniform [symmetric])
  have dist: "0 < S \<longleftrightarrow> distinct ?tg"
  proof
    assume "0 < S"
    with tgu have "sorted_wrt (<) ?tg" by (simp add: sorted_wrt_iff_nth_Suc_transp)
    then show "distinct ?tg" by (simp add: strict_sorted_iff)
  next
    assume "distinct ?tg"
    moreover from r(2) have "0 < length ?tg" "Suc 0 < length ?tg" by linarith+
    ultimately have "?tg ! 0 \<noteq> ?tg ! Suc 0" by (simp add: nth_eq_iff_index_eq)
    moreover from tgu r(2) have "?tg ! Suc 0 = ?tg ! 0 + S" by simp
    ultimately have "S \<noteq> 0" by simp
    with n show "0 < S" by simp
  qed
  from assms s n u strict dist show ?thesis by simp
qed

theorem grid_uniform_nondecreasing_witness:
  "populate_grid_time_int64 (staged [(7200, 10), (0, 0), (3600, 5)] [(- 1800, 3), (9000, 4)])
     = ((staged [(7200, 10), (0, 0), (3600, 5)] [(- 1800, 3), (9000, 4)])
          \<lparr>time_grid_table := [3600], grid_time := [0, 3600, 7200, 10800]\<rparr>,
        Inr ([0, 3600, 7200, 10800], 3600))
   \<and> sorted_wrt (<) [0, 3600, 7200, 10800 :: int]
   \<and> distinct (select_time_grid (staged [(7200, 10), (0, 0), (3600, 5)] [(- 1800, 3), (9000, 4)]))
   \<and> populate_grid_time (staged [(7200, 10), (0, 0), (3600, 5)] [(- 1800, 3), (9000, 4)])
     = ((staged [(7200, 10), (0, 0), (3600, 5)] [(- 1800, 3), (9000, 4)])
          \<lparr>time_grid_table := [3600], grid_time := [0, 3600, 7200, 10800]\<rparr>,
        Inr ([0, 3600, 7200, 10800], 3600))"
proof -
  let ?d = "staged [(7200, 10), (0, 0), (3600, 5)] [(- 1800, 3), (9000, 4)]"
  have tg: "select_time_grid ?d = [0, 3600, 7200]"
    by (simp add: select_time_grid_def sql_min_def sql_max_def staged_simps)
  have p: "populate_grid_time_int64 ?d
     = (?d\<lparr>time_grid_table := [3600], grid_time := [0, 3600, 7200, 10800]\<rparr>,
        Inr ([0, 3600, 7200, 10800], 3600))"
    by (simp add: populate_grid_time_int64_def tg staged_simps index_from_end_def Let_def
        int64_def fits_int64_def)
  have b: "\<forall>e \<in> set (select_time_grid ?d). - (2 ^ 61) \<le> e \<and> e \<le> 2 ^ 61"
    by (simp add: tg)
  note t = grid_uniform_nondecreasing [OF p b]
  from t have "sorted_wrt (<) [0, 3600, 7200, 10800 :: int]"
    and "distinct (select_time_grid ?d)" by simp_all
  moreover from t have "populate_grid_time ?d
     = (?d\<lparr>time_grid_table := [3600], grid_time := [0, 3600, 7200, 10800]\<rparr>,
        Inr ([0, 3600, 7200, 10800], 3600))"
    by blast
  ultimately show ?thesis using p by simp
qed

section \<open>Resampler: rainfall binning\<close>

text \<open>
  C4. After the Grid Builder has succeeded with grid \<open>grid\<close> and step \<open>S\<close>, rainfall binning
  succeeds, and the row \<open>(e, t, v)\<close> is among the rainfall intervals it stores if and only
  if \<open>(e, v)\<close> is a staged rainfall sample, \<open>t = e + S\<close>, \<open>e\<close> is equal to a grid point and
  \<open>e\<close> is at most the second-to-last grid point. So a staged sample whose epoch is no
  grid point leaves no row, and nothing is stored but such rows. The run as a whole
  stores these same rows.
\<close>

theorem rainfall_interval_emitted_iff_on_grid:
  assumes "populate_grid_time (staged rain water) = (d1, Inr (grid, S))"
  shows "snd (populate_rainfall_intensity d1 grid S) = Inr ()
       \<and> (\<forall>e t v. (e, t, v) \<in> set (rainfall_intensity (fst (populate_rainfall_intensity d1 grid S)))
             \<longleftrightarrow> (e, v) \<in> set rain \<and> t = e + S \<and> e \<in> set grid
                   \<and> e \<le> grid ! (length grid - 2))
       \<and> rainfall_intensity (fst (load_data rain water))
           = rainfall_intensity (fst (populate_rainfall_intensity d1 grid S))"
proof -
  note s = populate_grid_time_staged [OF assms]
  from s(3) have two: "2 \<le> length grid" by linarith
  have d1: "rainfall_intensity d1 = []" "rainfall_intensity_staging d1 = rain" "grid_time d1 = grid"
    by (simp_all add: s(1) staged_simps)
  show ?thesis
    by (simp add: populate_rainfall_intensity_Inr [OF two] load_data_Inr [OF assms] d1
        set_select_rainfall_intervals)
qed

theorem rainfall_interval_emitted_iff_on_grid_witness:
  "populate_grid_time
     (staged [(- 3600, 1), (0, 0), (3600, 5), (7200, 10), (10800, 2)] [(- 1800, 3), (9000, 4)])
     = ((staged [(- 3600, 1), (0, 0), (3600, 5), (7200, 10), (10800, 2)]
           [(- 1800, 3), (9000, 4)])
          \<lparr>time_grid_table := [3600], grid_time := [0, 3600, 7200, 10800]\<rparr>,
        Inr ([0, 3600, 7200, 10800], 3600))
   \<and> (7200, 10800, 10) \<in> set (rainfall_intensity (fst (populate_rainfall_intensity
         ((staged [(- 3600, 1), (0, 0), (3600, 5), (7200, 10), (10800, 2)]
             [(- 1800, 3), (9000, 4)])
            \<lparr>time_grid_table := [3600], grid_time := [0, 3600, 7200, 10800]\<rparr>)
         [0, 3600, 7200, 10800] 3600)))
   \<and> (10800, 14400, 2) \<notin> set (rainfall_intensity (fst (populate_rainfall_intensity
         ((staged [(- 3600, 1), (0, 0), (3600, 5), (7200, 10), (10800, 2)]
             [(- 1800, 3), (9000, 4)])
            \<lparr>time_grid_table := [3600], grid_time := [0, 3600, 7200, 10800]\<rparr>)
         [0, 3600, 7200, 10800] 3600)))
   \<and> (- 3600, 0, 1) \<notin> set (rainfall_intensity (fst (populate_rainfall_intensity
         ((staged [(- 3600, 1), (0, 0), (3600, 5), (7200, 10), (10800, 2)]
             [(- 1800, 3), (9000, 4)])
            \<lparr>time_grid_table := [3600], grid_time := [0, 3600, 7200, 10800]\<rparr>)
         [0, 3600, 7200, 10800] 3600)))"
proof -
  let ?d = "staged [(- 3600, 1), (0, 0), (3600, 5), (7200, 10), (10800, 2)]
              [(- 1800, 3), (9000, 4)]"
  have tg: "select_time_grid ?d = [0, 3600, 7200]"
    by (simp add: select_time_grid_def sql_min_def sql_max_def staged_simps)
  have p: "populate_grid_time ?d
     = (?d\<lparr>time_grid_table := [3600], grid_time := [0, 3600, 7200, 10800]\<rparr>,
        Inr ([0, 3600, 7200, 10800], 3600))"
    by (simp add: populate_grid_time_def tg staged_simps index_from_end_def Let_def)
  note t = rainfall_interval_emitted_iff_on_grid [OF p]
  from t have m: "\<And>e t v. (e, t, v) \<in> set (rainfall_intensity (fst (populate_rainfall_intensity
         (?d\<lparr>time_grid_table := [3600], grid_time := [0, 3600, 7200, 10800]\<rparr>)
         [0, 3600, 7200, 10800] 3600)))
     \<longleftrightarrow> (e, v) \<in> set [(- 3600, 1), (0, 0), (3600, 5), (7200, 10), (10800, 2)] \<and> t = e + 3600
          \<and> e \<in> set [0, 3600, 7200, 10800] \<and> e \<le> [0, 3600, 7200, 10800] ! (length [0, 3600, 7200, 10800 :: int] - 2)"
    by blast
  show ?thesis
    apply (intro conjI)
       apply (rule p)
      apply (simp_all only: m)
      apply simp_all
    done
qed


text \<open>
  C7. For every successful run, with \<open>grid\<close> and \<open>S\<close> the stored grid and step: the Grid
  Builder had returned that grid and step, and the stored rainfall intervals, read in
  the order of their \<open>from_epoch\<close> (a table has no order of its own), tile
  \<open>[grid[0], grid[-2] + S)\<close>: there is at least one, the first starts at \<open>grid[0]\<close>, the
  last ends at \<open>grid[-2] + S\<close>, each one's \<open>thru_epoch\<close> is the next one's \<open>from_epoch\<close>,
  and every interval runs from a grid point to the grid point one step later. When the
  step is positive the \<open>from_epoch\<close>s are exactly the grid points but the last, each
  once, so the intervals neither overlap nor leave a gap.
\<close>

theorem rainfall_intervals_tile_grid:
  assumes run: "load_data rain water = (d', Inr ())"
    and grid: "grid = grid_time d'" and step: "S = hd (time_grid_table d')"
    and rows: "rows = sort_key fst (rainfall_intensity d')"
  shows "snd (populate_grid_time (staged rain water)) = Inr (grid, S)
       \<and> rows \<noteq> []
       \<and> fst (hd rows) = hd grid
       \<and> fst (snd (last rows)) = grid ! (length grid - 2) + S
       \<and> (\<forall>i. Suc i < length rows \<longrightarrow> fst (snd (rows ! i)) = fst (rows ! Suc i))
       \<and> (\<forall>r \<in> set rows. fst (snd r) = fst r + S \<and> fst r \<in> set grid \<and> fst (snd r) \<in> set grid)
       \<and> (0 < S \<longrightarrow> map fst rows = butlast grid)"
proof -
  let ?tg = "select_time_grid (staged rain water)"
  define d1 where "d1 = (staged rain water)\<lparr>time_grid_table := [S], grid_time := grid\<rparr>"
  have pg: "populate_grid_time (staged rain water) = (d1, Inr (grid, S))"
    using load_data_success [OF run] by (simp add: d1_def grid step)
  note r = populate_grid_time_Inr [OF pg]
  note s = populate_grid_time_staged [OF pg]
  note u = populate_grid_time_uniform [OF pg]
  have n: "0 \<le> S" by (rule populate_grid_time_step_nonneg [OF pg])
  let ?rows0 = "select_rainfall_intervals d1 S (grid ! (length grid - 2))"
  from load_data_Inr [OF pg] run have "rainfall_intensity d' = ?rows0" by auto
  with rows have rows0: "rows = sort_key fst ?rows0" by simp
  then have set_rows: "set rows = set ?rows0" by simp
  from r(2) have ne: "?tg \<noteq> []" by auto
  have lg: "length grid = length ?tg + 1" by (subst r(3)) simp
  have bl: "butlast grid = ?tg" by (subst r(3)) simp
  have hg: "hd grid = hd ?tg" using ne by (subst r(3)) simp
  have mem: "\<And>e t v. (e, t, v) \<in> set rows \<longleftrightarrow>
               (e, v) \<in> set rain \<and> t = e + S \<and> e \<in> set ?tg"
    by (simp only: set_rows rainfall_rows_on_grid [OF pg])
  \<comment> \<open>every row starts at a selected epoch and ends one step later, on the grid\<close>
  have each: "fst (snd r) = fst r + S \<and> fst r \<in> set ?tg \<and> fst r \<in> set grid
                \<and> fst (snd r) \<in> set grid" if "r \<in> set rows" for r
  proof -
    obtain e t v where rr: "r = (e, t, v)" by (cases r) auto
    with that mem have t: "t = e + S" and e: "e \<in> set ?tg" by auto
    from e obtain i where i: "i < length ?tg" "e = ?tg ! i" by (auto simp: in_set_conv_nth)
    from i lg have "Suc i < length grid" by simp
    with u have "grid ! Suc i = grid ! i + S" by simp
    moreover from i have "grid ! i = e" by (subst r(3)) (simp add: nth_append)
    moreover from i lg have "grid ! Suc i \<in> set grid" "grid ! i \<in> set grid" by simp_all
    ultimately have "e + S \<in> set grid" "e \<in> set grid" by simp_all
    with rr t e show ?thesis by simp
  qed
  \<comment> \<open>every selected epoch starts a row\<close>
  have nonempty: "rows \<noteq> []"
  proof -
    from ne have "hd ?tg \<in> set ?tg" by simp
    moreover then obtain v where "(hd ?tg, v) \<in> set rain"
      using select_time_grid_subset [of "staged rain water"] by (auto simp: staged_simps)
    ultimately have "(hd ?tg, hd ?tg + S, v) \<in> set rows" by (simp add: mem)
    then show ?thesis by auto
  qed
  have froms_sorted: "map fst rows = sort (map fst ?rows0)"
    by (simp only: rows0 map_sort_key_self)
  have ends: "fst (hd rows) = hd grid \<and> fst (snd (last rows)) = grid ! (length grid - 2) + S
       \<and> (\<forall>i. Suc i < length rows \<longrightarrow> fst (snd (rows ! i)) = fst (rows ! Suc i))"
  proof (cases "0 < S")
    case True
    have f: "map fst rows = ?tg"
      by (simp only: froms_sorted froms_positive_step [OF pg True])
    then have len: "length rows = length ?tg" by (metis length_map)
    have nth: "fst (rows ! i) = ?tg ! i" if "i < length rows" for i
      using that f by (metis nth_map)
    have tgu: "\<forall>i. Suc i < length ?tg \<longrightarrow> ?tg ! Suc i = ?tg ! i + S"
      using r(1) by (simp add: np_diff_uniform [symmetric])
    have "fst (hd rows) = hd ?tg" using nonempty f by (metis hd_map)
    moreover have "fst (last rows) = last ?tg" using nonempty f by (metis last_map)
    moreover have "fst (snd (last rows)) = fst (last rows) + S"
      using each [of "last rows"] nonempty by simp
    moreover have "fst (snd (rows ! i)) = fst (rows ! Suc i)" if "Suc i < length rows" for i
    proof -
      from that have "rows ! i \<in> set rows" by simp
      then have "fst (snd (rows ! i)) = fst (rows ! i) + S" using each by blast
      also have "\<dots> = ?tg ! i + S" using that by (simp add: nth)
      also have "\<dots> = ?tg ! Suc i" using that tgu len by simp
      also have "\<dots> = fst (rows ! Suc i)" using that by (simp add: nth)
      finally show ?thesis .
    qed
    ultimately show ?thesis using hg s(4) by simp
  next
    case False
    with n have z: "S = 0" by simp
    have pg0: "populate_grid_time (staged rain water) = (d1, Inr (grid, 0))"
      using pg z by simp
    have c: "fst r = hd ?tg \<and> fst (snd r) = hd ?tg" if "r \<in> set rows" for r
      using each [OF that] zero_step_all_equal [OF pg0] z by simp
    have "last ?tg = hd ?tg" using zero_step_all_equal [OF pg0, of "last ?tg"] ne by simp
    moreover have "hd rows \<in> set rows" "last rows \<in> set rows" using nonempty by simp_all
    moreover have "fst (snd (rows ! i)) = fst (rows ! Suc i)" if "Suc i < length rows" for i
    proof -
      from that have "rows ! i \<in> set rows" "rows ! Suc i \<in> set rows" by simp_all
      with c show ?thesis by simp
    qed
    ultimately show ?thesis using c hg s(4) z by simp
  qed
  have strict: "0 < S \<longrightarrow> map fst rows = butlast grid"
    by (simp add: froms_sorted froms_positive_step [OF pg] bl)
  have all: "\<forall>r \<in> set rows. fst (snd r) = fst r + S \<and> fst r \<in> set grid
               \<and> fst (snd r) \<in> set grid"
    using each by blast
  have res: "snd (populate_grid_time (staged rain water)) = Inr (grid, S)"
    by (simp add: pg)
  from res nonempty ends all strict show ?thesis by blast
qed


theorem rainfall_intervals_tile_grid_witness:
  "load_data [(3600, 5), (0, 0), (7200, 10)] [(- 1800, 3), (9000, 4)]
     = (fst (load_data [(3600, 5), (0, 0), (7200, 10)] [(- 1800, 3), (9000, 4)]), Inr ())
   \<and> grid_time (fst (load_data [(3600, 5), (0, 0), (7200, 10)] [(- 1800, 3), (9000, 4)]))
       = [0, 3600, 7200, 10800]
   \<and> hd (time_grid_table (fst (load_data [(3600, 5), (0, 0), (7200, 10)]
                                   [(- 1800, 3), (9000, 4)]))) = 3600
   \<and> rainfall_intensity (fst (load_data [(3600, 5), (0, 0), (7200, 10)] [(- 1800, 3), (9000, 4)]))
       = [(3600, 7200, 5), (0, 3600, 0), (7200, 10800, 10)]
   \<and> map fst (sort_key fst (rainfall_intensity
         (fst (load_data [(3600, 5), (0, 0), (7200, 10)] [(- 1800, 3), (9000, 4)]))))
       = [0, 3600, 7200]
   \<and> fst (snd (last (sort_key fst (rainfall_intensity
         (fst (load_data [(3600, 5), (0, 0), (7200, 10)] [(- 1800, 3), (9000, 4)]))))))
       = 10800"
proof -
  let ?rain = "[(3600, 5), (0, 0), (7200, 10)] :: (int \<times> real) list"
  let ?water = "[(- 1800, 3), (9000, 4)] :: (int \<times> real) list"
  let ?d1 = "(staged ?rain ?water)\<lparr>time_grid_table := [3600], grid_time := [0, 3600, 7200, 10800]\<rparr>"
  have tg: "select_time_grid (staged ?rain ?water) = [0, 3600, 7200]"
    by (simp add: select_time_grid_def sql_min_def sql_max_def staged_simps)
  have pg: "populate_grid_time (staged ?rain ?water) = (?d1, Inr ([0, 3600, 7200, 10800], 3600))"
    by (simp add: populate_grid_time_def tg staged_simps index_from_end_def Let_def)
  note ld = load_data_Inr [OF pg]
  have run: "load_data ?rain ?water = (fst (load_data ?rain ?water), Inr ())"
    by (simp add: ld)
  have g: "grid_time (fst (load_data ?rain ?water)) = [0, 3600, 7200, 10800]"
    by (simp add: ld)
  have st: "hd (time_grid_table (fst (load_data ?rain ?water))) = 3600"
    by (simp add: ld)
  have ri: "rainfall_intensity (fst (load_data ?rain ?water))
              = [(3600, 7200, 5), (0, 3600, 0), (7200, 10800, 10)]"
    by (simp add: ld select_rainfall_intervals_def staged_simps)
  note t = rainfall_intervals_tile_grid [OF run refl refl refl]
  from t st have "map fst (sort_key fst (rainfall_intensity (fst (load_data ?rain ?water))))
                    = butlast (grid_time (fst (load_data ?rain ?water)))"
    by simp
  then have a: "map fst (sort_key fst (rainfall_intensity (fst (load_data ?rain ?water))))
                    = [0, 3600, 7200]"
    by (simp add: g)
  from t have "fst (snd (last (sort_key fst (rainfall_intensity (fst (load_data ?rain ?water))))))
      = grid_time (fst (load_data ?rain ?water))
          ! (length (grid_time (fst (load_data ?rain ?water))) - 2)
        + hd (time_grid_table (fst (load_data ?rain ?water)))"
    by blast
  then have b: "fst (snd (last (sort_key fst (rainfall_intensity
                  (fst (load_data ?rain ?water)))))) = 10800"
    by (simp add: g st)
  from run g st ri a b show ?thesis by blast
qed


section \<open>Timestamp Normalizer\<close>

text \<open>
  C8, as stated, fails: the text \<^verbatim>\<open>2020-1-2 3:4:5\<close> does not have the format
  \<^verbatim>\<open>YYYY-MM-DD HH:MM:SS\<close>, yet \<^verbatim>\<open>strptime\<close> reads fields of one digit, and in the zone UTC
  the row is yielded with the epoch 1577934245 of 2020-01-02 03:04:05.
\<close>

theorem one_digit_fields_accepted:
  "\<not> iso_8601_shape ''2020-1-2 3:4:5''
   \<and> timestamped_row utc [''2020-1-2 3:4:5'', ''1.5''] = Inr (1577934245, [''1.5''])"
proof -
  have "strptime ''2020-1-2 3:4:5''
          = Some \<lparr>year = 2020, month = 1, day = 2, hour = 3, minute = 4, second = 5\<rparr>"
    by code_simp
  then have "timestamped_row utc [''2020-1-2 3:4:5'', ''1.5''] = Inr (1577934245, [''1.5''])"
    by (simp add: timestamped_row_def utc_def is_integer_def py_int_def
        timestamp_def toordinal_def days_before_year_def days_before_month_def
        days_in_month_def is_leap_def)
  then show ?thesis by (simp add: iso_8601_shape_def)
qed

text \<open>
  C8, amended. For every input row: when \<^verbatim>\<open>strptime\<close> does not accept the row's text under
  the format \<^verbatim>\<open>%Y-%m-%d %H:%M:%S\<close>, the row fails with the parser's \<^verbatim>\<open>ValueError\<close>. That
  is so for every text with a character that is no digit, hyphen, colon or whitespace,
  hence for every text with a decimal point, such as \<^verbatim>\<open>2020-01-01 00:00:00.5\<close>, in every
  zone and with any further fields: a fraction of a second is never truncated. When the
  text parses but the instant is not a whole number of seconds, the row fails with the
  \<^verbatim>\<open>ValueError\<close> for non-integer seconds (both errors are the spec's
  \<^verbatim>\<open>InvalidTimestamp\<close>). A row that succeeds yields its other fields unchanged behind an
  integer epoch that is exactly the instant. The generator yields the rows in order and
  stops with the exception of the first row that fails; when it ends without exception
  it has yielded every row.
\<close>

theorem invalid_timestamp_rejected:
  "(strptime bad = None \<longrightarrow>
      timestamped_row tz (bad # rest) = Inl (ValueError_strptime bad))
   \<and> (c \<in> set junk \<and> \<not> format_char c \<longrightarrow>
      timestamped_row tz (junk # rest) = Inl (ValueError_strptime junk))
   \<and> (CHR ''.'' \<in> set dotted \<longrightarrow>
      timestamped_row tz (dotted # rest) = Inl (ValueError_strptime dotted))
   \<and> (strptime stamp = Some dt \<and> tz dt = Some utcoffset \<and> timestamp dt utcoffset \<notin> \<int> \<longrightarrow>
      timestamped_row tz (stamp # rest) = Inl (ValueError_non_integer_seconds stamp))
   \<and> timestamped_row tz (''2020-01-01 00:00:00.5'' # rest)
       = Inl (ValueError_strptime ''2020-01-01 00:00:00.5'')
   \<and> (timestamped_row tz row = Inr (epoch, rest') \<longrightarrow>
      (\<exists>stamp' dt' utcoffset'. row = stamp' # rest' \<and> strptime stamp' = Some dt'
         \<and> tz dt' = Some utcoffset' \<and> real_of_int epoch = timestamp dt' utcoffset'))
   \<and> (map (timestamped_row tz) good = map Inr out \<and> timestamped_row tz failing = Inl e \<longrightarrow>
      generate_timestamped_rows (good @ failing # later) tz = (out, Some e))
   \<and> (generate_timestamped_rows rows tz = (yielded, None) \<longrightarrow>
      map (timestamped_row tz) rows = map Inr yielded)"
proof (intro conjI impI)
  show "timestamped_row tz (bad # rest) = Inl (ValueError_strptime bad)"
    if "strptime bad = None"
    using that by (simp add: timestamped_row_def)
  show "timestamped_row tz (junk # rest) = Inl (ValueError_strptime junk)"
    if "c \<in> set junk \<and> \<not> format_char c"
  proof -
    from that have "strptime junk = None" by (auto intro: strptime_rejects)
    then show ?thesis by (simp add: timestamped_row_def)
  qed
  show "timestamped_row tz (dotted # rest) = Inl (ValueError_strptime dotted)"
    if "CHR ''.'' \<in> set dotted"
  proof -
    have "\<not> format_char CHR ''.''" by (simp add: format_char_def is_digit_def is_space_def)
    with that have "strptime dotted = None" by (rule strptime_rejects)
    then show ?thesis by (simp add: timestamped_row_def)
  qed
  show "timestamped_row tz (stamp # rest) = Inl (ValueError_non_integer_seconds stamp)"
    if "strptime stamp = Some dt \<and> tz dt = Some utcoffset \<and> timestamp dt utcoffset \<notin> \<int>"
    using that by (simp add: timestamped_row_def is_integer_iff)
  show "timestamped_row tz (''2020-01-01 00:00:00.5'' # rest)
       = Inl (ValueError_strptime ''2020-01-01 00:00:00.5'')"
    by (simp add: timestamped_row_def strptime_subsecond)
  show "\<exists>stamp' dt' utcoffset'. row = stamp' # rest' \<and> strptime stamp' = Some dt'
         \<and> tz dt' = Some utcoffset' \<and> real_of_int epoch = timestamp dt' utcoffset'"
    if "timestamped_row tz row = Inr (epoch, rest')"
    using that
    by (auto simp: timestamped_row_def Let_def is_integer_iff py_int_integer
        split: list.splits option.splits if_splits)
  show "generate_timestamped_rows (good @ failing # later) tz = (out, Some e)"
    if "map (timestamped_row tz) good = map Inr out \<and> timestamped_row tz failing = Inl e"
    using that by (simp add: generate_timestamped_rows_append)
  show "map (timestamped_row tz) rows = map Inr yielded"
    if "generate_timestamped_rows rows tz = (yielded, None)"
    using that by (simp add: generate_timestamped_rows_all)
qed

theorem invalid_timestamp_rejected_witness:
  "strptime ''2020-01-01 00:00'' = None
   \<and> timestamped_row utc [''2020-01-01 00:00'', ''1.5''] = Inl (ValueError_strptime ''2020-01-01 00:00'')
   \<and> timestamp \<lparr>year = 2020, month = 1, day = 1, hour = 0, minute = 0, second = 0\<rparr> (1 / 2) \<notin> \<int>
   \<and> timestamped_row (\<lambda>dt. Some (1 / 2)) [''2020-01-01 00:00:00'', ''1.5'']
       = Inl (ValueError_non_integer_seconds ''2020-01-01 00:00:00'')
   \<and> timestamped_row utc [''2020-01-01 00:00:00'', ''1.5'', ''x''] = Inr (1577836800, [''1.5'', ''x''])
   \<and> real_of_int 1577836800
       = timestamp \<lparr>year = 2020, month = 1, day = 1, hour = 0, minute = 0, second = 0\<rparr> 0
   \<and> generate_timestamped_rows
         [[''2020-01-01 00:00:00'', ''1.5'', ''x''], [''2020-01-01 00:00:00.5'', ''2'']] utc
       = ([(1577836800, [''1.5'', ''x''])], Some (ValueError_strptime ''2020-01-01 00:00:00.5''))
   \<and> generate_timestamped_rows [[''2020-01-01 00:00:00'', ''1.5'', ''x'']] utc
       = ([(1577836800, [''1.5'', ''x''])], None)
   \<and> CHR ''T'' \<in> set ''2020-01-01T00:00:00'' \<and> \<not> format_char CHR ''T''
   \<and> timestamped_row utc [''2020-01-01T00:00:00'', ''1.5'']
       = Inl (ValueError_strptime ''2020-01-01T00:00:00'')
   \<and> CHR ''.'' \<in> set ''2020-01-01 00:00:00.123456''
   \<and> timestamped_row utc [''2020-01-01 00:00:00.123456'', ''1.5'']
       = Inl (ValueError_strptime ''2020-01-01 00:00:00.123456'')"
proof -
  let ?dt = "\<lparr>year = 2020, month = 1, day = 1, hour = 0, minute = 0, second = 0\<rparr>"
  let ?half = "\<lambda>dt :: datetime. Some (1 / 2 :: real)"
  have bad: "strptime ''2020-01-01 00:00'' = None" by code_simp
  have ts: "timestamp ?dt (1 / 2) = 1577836800 - 1 / 2"
    by (simp add: timestamp_def toordinal_def days_before_year_def days_before_month_def)
  have "\<not> is_integer (timestamp ?dt (1 / 2))"
    by (subst ts) (simp add: is_integer_def)
  then have frac: "timestamp ?dt (1 / 2) \<notin> \<int>"
    using is_integer_iff [of "timestamp ?dt (1 / 2)"] by blast
  have ok: "strptime ''2020-01-01 00:00:00'' = Some ?dt" by code_simp
  have h2: "strptime ''2020-01-01 00:00:00'' = Some ?dt \<and> ?half ?dt = Some (1 / 2)
              \<and> timestamp ?dt (1 / 2) \<notin> \<int>"
    using ok frac by simp
  have ts0: "timestamp ?dt 0 = 1577836800"
    by (simp add: timestamp_def toordinal_def days_before_year_def days_before_month_def)
  have row: "timestamped_row utc [''2020-01-01 00:00:00'', ''1.5'', ''x'']
               = Inr (1577836800, [''1.5'', ''x''])"
    by (simp add: timestamped_row_def ok utc_def is_integer_def py_int_def
        timestamp_def toordinal_def days_before_year_def days_before_month_def)
  have sub: "timestamped_row utc [''2020-01-01 00:00:00.5'', ''2'']
               = Inl (ValueError_strptime ''2020-01-01 00:00:00.5'')"
    using invalid_timestamp_rejected [where tz = utc and rest = "[''2'']"] by blast
  have h5: "map (timestamped_row utc) [[''2020-01-01 00:00:00'', ''1.5'', ''x'']]
              = map Inr [(1577836800, [''1.5'', ''x''])]
            \<and> timestamped_row utc [''2020-01-01 00:00:00.5'', ''2'']
              = Inl (ValueError_strptime ''2020-01-01 00:00:00.5'')"
    using row sub by simp
  have g1: "generate_timestamped_rows [[''2020-01-01 00:00:00'', ''1.5'', ''x'']] utc
       = ([(1577836800, [''1.5'', ''x''])], None)"
    by (simp add: row)
  have a: "timestamped_row utc [''2020-01-01 00:00'', ''1.5'']
             = Inl (ValueError_strptime ''2020-01-01 00:00'')"
    using invalid_timestamp_rejected [where bad = "''2020-01-01 00:00''" and tz = utc
        and rest = "[''1.5'']"] bad by blast
  have b: "timestamped_row ?half [''2020-01-01 00:00:00'', ''1.5'']
       = Inl (ValueError_non_integer_seconds ''2020-01-01 00:00:00'')"
    using invalid_timestamp_rejected [where stamp = "''2020-01-01 00:00:00''" and tz = ?half
        and dt = ?dt and utcoffset = "1 / 2" and rest = "[''1.5'']"] h2 by blast
  have c: "generate_timestamped_rows
         [[''2020-01-01 00:00:00'', ''1.5'', ''x''], [''2020-01-01 00:00:00.5'', ''2'']] utc
       = ([(1577836800, [''1.5'', ''x''])], Some (ValueError_strptime ''2020-01-01 00:00:00.5''))"
    using invalid_timestamp_rejected [where tz = utc
        and good = "[[''2020-01-01 00:00:00'', ''1.5'', ''x'']]"
        and out = "[(1577836800, [''1.5'', ''x''])]"
        and failing = "[''2020-01-01 00:00:00.5'', ''2'']"
        and e = "ValueError_strptime ''2020-01-01 00:00:00.5''" and later = "[]"] h5
    by simp
  have d: "real_of_int 1577836800 = timestamp ?dt 0" by (subst ts0) simp
  have h6: "CHR ''T'' \<in> set ''2020-01-01T00:00:00''" "\<not> format_char CHR ''T''"
    by (simp_all add: format_char_def is_digit_def is_space_def)
  have f: "timestamped_row utc [''2020-01-01T00:00:00'', ''1.5'']
       = Inl (ValueError_strptime ''2020-01-01T00:00:00'')"
    using invalid_timestamp_rejected [where junk = "''2020-01-01T00:00:00''" and c = "CHR ''T''"
        and tz = utc and rest = "[''1.5'']"] h6 by blast
  have h7: "CHR ''.'' \<in> set ''2020-01-01 00:00:00.123456''" by simp
  have g: "timestamped_row utc [''2020-01-01 00:00:00.123456'', ''1.5'']
       = Inl (ValueError_strptime ''2020-01-01 00:00:00.123456'')"
    using invalid_timestamp_rejected [where dotted = "''2020-01-01 00:00:00.123456''"
        and tz = utc and rest = "[''1.5'']"] h7 by blast
  from bad a frac b row d c g1 h6 f h7 g show ?thesis by blast
qed


section \<open>Resampler: water level\<close>

text \<open>
  C9 does not hold of the code. The query of \<^verbatim>\<open>populate_water_level\<close> has no
  \<^verbatim>\<open>ORDER BY\<close> (the query of \<^verbatim>\<open>populate_grid_time\<close> has one), so the rows reach
  \<^verbatim>\<open>np.interp\<close> in stored order: water-level samples appended at epochs 7200 and then 0
  are read back as 7200, 0, which is not ascending.
\<close>

theorem water_level_rows_read_in_stored_order:
  "select_water_level_staging (insert_water_level_staging [(7200, 2), (0, 1)] empty_db)
     = [(7200, 2), (0, 1)]
   \<and> \<not> sorted (map fst (select_water_level_staging
                            (insert_water_level_staging [(7200, 2), (0, 1)] empty_db)))"
  by (simp add: select_water_level_staging_def insert_water_level_staging_def empty_db_def)


text \<open>
  C5 does not hold of the code, for the same reason. With rainfall staged at epochs 0,
  3600, 7200 and the water-level samples (7200, 2), (0, 1) appended in this order, the
  run succeeds with grid [0, 3600, 7200, 10800] and stores a level for each grid point
  but the last, yet the level stored at epoch 0 is 2 and at epoch 7200 is 1, while the
  staged levels there are 1 and 2; at 3600 it stores 1, not the interpolated 1.5. On a
  series stored in ascending epoch order the stored levels are as C5 says: see
  \<open>populate_water_level_rows\<close> and \<open>water_level_interpolated\<close>.
\<close>

theorem water_level_wrong_on_unsorted_series:
  "snd (load_data [(0, 0), (3600, 5), (7200, 10)] [(7200, 2), (0, 1)]) = Inr ()
   \<and> grid_time (fst (load_data [(0, 0), (3600, 5), (7200, 10)] [(7200, 2), (0, 1)]))
       = [0, 3600, 7200, 10800]
   \<and> water_level (fst (load_data [(0, 0), (3600, 5), (7200, 10)] [(7200, 2), (0, 1)]))
       = [(0, 2), (3600, 1), (7200, 1)]"
proof -
  let ?rain = "[(0, 0), (3600, 5), (7200, 10)] :: (int \<times> real) list"
  let ?water = "[(7200, 2), (0, 1)] :: (int \<times> real) list"
  let ?d1 = "(staged ?rain ?water)\<lparr>time_grid_table := [3600], grid_time := [0, 3600, 7200, 10800]\<rparr>"
  have tg: "select_time_grid (staged ?rain ?water) = [0, 3600, 7200]"
    by (simp add: select_time_grid_def sql_min_def sql_max_def staged_simps)
  have pg: "populate_grid_time (staged ?rain ?water) = (?d1, Inr ([0, 3600, 7200, 10800], 3600))"
    by (simp add: populate_grid_time_def tg staged_simps index_from_end_def Let_def)
  show ?thesis
    by (simp add: load_data_Inr [OF pg] np_interp_def interp_value_def
        binary_search_with_guess_def linear_search_def Let_def)
qed

end
